theory Spec2Isabelle
  imports Main "HOL-Library.AList" "HOL-Library.Sublist"
begin

section \<open>JavaScript values, objects and the heap\<close>

text \<open>
  The code under study is \<^verbatim>\<open>src/core/instance/init.js\<close> (\<^verbatim>\<open>initMixin\<close>,
  \<^verbatim>\<open>initInternalComponent\<close>, \<^verbatim>\<open>resolveConstructorOptions\<close>,
  \<^verbatim>\<open>resolveModifiedOptions\<close>) and \<^verbatim>\<open>src/core/instance/index.js\<close> (the
  \<^verbatim>\<open>Vue\<close> constructor function).

  Objects live in a heap and are referred to by address, so that identity (\<^verbatim>\<open>===\<close>)
  and in-place mutation are visible. Constructors (component classes) are objects as
  well, as in JavaScript: \<^verbatim>\<open>Ctor.options\<close>, \<^verbatim>\<open>Ctor.super\<close>,
  \<^verbatim>\<open>Ctor.superOptions\<close>, \<^verbatim>\<open>Ctor.extendOptions\<close> and \<^verbatim>\<open>Ctor.sealedOptions\<close> are
  properties of the constructor object.
\<close>

type_synonym addr = nat

datatype val =
    Undefined
  | Null
  | Bool bool
  | Num int
  | NaN
  | Str string
  | Ref addr

text \<open>What a function object runs when it is called.\<close>

datatype code =
    Code_init      \<comment> \<open>the function installed by \<^verbatim>\<open>initMixin\<close> as \<^verbatim>\<open>Vue.prototype._init\<close>\<close>
  | Code_other nat \<comment> \<open>any other function, known by a number\<close>

record obj =
  proto :: "addr option"            \<comment> \<open>the prototype link; \<open>None\<close> is the end of the chain\<close>
  props :: "(string \<times> val) list"    \<comment> \<open>own properties, in insertion order\<close>
  callable :: "code option"         \<comment> \<open>\<open>Some c\<close> for a function object\<close>

text \<open>
  The heap is the list of all objects ever allocated; an object's address is its
  position. Allocation appends, nothing is freed.
\<close>

type_synonym heap = "obj list"

datatype error =
    TypeError           \<comment> \<open>property access on \<^verbatim>\<open>undefined\<close>/\<^verbatim>\<open>null\<close>, call of a non-function, ...\<close>
  | RangeError          \<comment> \<open>call stack exhausted\<close>
  | Thrown string       \<comment> \<open>an exception raised by a collaborator\<close>

text \<open>
  A computation returns a value or raises; the heap survives in both cases, as the
  state of a JavaScript program survives an exception.
\<close>

type_synonym 'a result = "(error + 'a) \<times> heap"

definition truthy :: "val \<Rightarrow> bool" where
  "truthy v = (case v of
      Undefined \<Rightarrow> False
    | Null \<Rightarrow> False
    | Bool b \<Rightarrow> b
    | Num n \<Rightarrow> n \<noteq> 0
    | NaN \<Rightarrow> False
    | Str s \<Rightarrow> s \<noteq> []
    | Ref a \<Rightarrow> True)"

text \<open>\<^verbatim>\<open>a === b\<close>: identity on objects, equality on primitives, and \<^verbatim>\<open>NaN\<close> differs from itself.\<close>

definition strict_eq :: "val \<Rightarrow> val \<Rightarrow> bool" where
  "strict_eq a b = (a = b \<and> a \<noteq> NaN)"

definition new_object :: "addr option \<Rightarrow> obj" where
  "new_object p = \<lparr>proto = p, props = [], callable = None\<rparr>"

definition alloc :: "obj \<Rightarrow> heap \<Rightarrow> addr \<times> heap" where
  "alloc ob h = (length h, h @ [ob])"

text \<open>
  Reading a property walks the prototype chain. A prototype is always an object that
  existed before the object that links to it (\<^verbatim>\<open>Object.create\<close> is the only way this code
  sets a prototype), which is why chains are finite; the walk stops at a link that
  does not point to an older object.
\<close>

function lookup :: "heap \<Rightarrow> addr \<Rightarrow> string \<Rightarrow> val" where
  "lookup h a k =
     (if a < length h then
        (case map_of (props (h ! a)) k of
           Some v \<Rightarrow> v
         | None \<Rightarrow>
            (case proto (h ! a) of
               None \<Rightarrow> Undefined
             | Some p \<Rightarrow> if p < a then lookup h p k else Undefined))
      else Undefined)"
  by pat_completeness auto
termination
  by (relation "measure (\<lambda>(h, a, k). a)") auto

declare lookup.simps [simp del]

text \<open>
  \<^verbatim>\<open>v[k]\<close> as an expression. Reading from \<^verbatim>\<open>undefined\<close> or \<^verbatim>\<open>null\<close> raises a TypeError.
  The Flow annotations of the source make every value read from here an object or
  absent; for the remaining primitives the read gives \<^verbatim>\<open>undefined\<close> (the members of
  the boxed prototypes are none of the names this code reads).
\<close>

definition get_prop :: "heap \<Rightarrow> val \<Rightarrow> string \<Rightarrow> error + val" where
  "get_prop h v k = (case v of
      Ref a \<Rightarrow> if a < length h then Inr (lookup h a k) else Inl TypeError
    | Undefined \<Rightarrow> Inl TypeError
    | Null \<Rightarrow> Inl TypeError
    | _ \<Rightarrow> Inr Undefined)"

text \<open>
  \<^verbatim>\<open>v[k] = x\<close>: creates or overwrites an own property of the object. The module is
  strict-mode code, so an assignment to a property of a primitive raises.
\<close>

definition set_own :: "heap \<Rightarrow> addr \<Rightarrow> string \<Rightarrow> val \<Rightarrow> heap" where
  "set_own h a k x = h[a := (h ! a)\<lparr>props := AList.update k x (props (h ! a))\<rparr>]"

definition set_prop :: "heap \<Rightarrow> val \<Rightarrow> string \<Rightarrow> val \<Rightarrow> error + heap" where
  "set_prop h v k x = (case v of
      Ref a \<Rightarrow> if a < length h then Inr (set_own h a k x) else Inl TypeError
    | _ \<Rightarrow> Inl TypeError)"

text \<open>
  The keys a \<^verbatim>\<open>for (key in v)\<close> loop visits: the own properties, then those of the
  prototype chain that were not seen yet. Nothing is visited for \<^verbatim>\<open>undefined\<close>,
  \<^verbatim>\<open>null\<close> and the other primitives.
\<close>

function chain_keys :: "heap \<Rightarrow> addr \<Rightarrow> string list" where
  "chain_keys h a =
     (if a < length h then
        map fst (props (h ! a)) @
        (case proto (h ! a) of
           None \<Rightarrow> []
         | Some p \<Rightarrow> if p < a then chain_keys h p else [])
      else [])"
  by pat_completeness auto
termination
  by (relation "measure (\<lambda>(h, a). a)") auto

declare chain_keys.simps [simp del]

definition forin_keys :: "heap \<Rightarrow> val \<Rightarrow> string list" where
  "forin_keys h v = (case v of Ref a \<Rightarrow> rev (remdups (rev (chain_keys h a))) | _ \<Rightarrow> [])"

text \<open>
  The property key a value stands for in \<^verbatim>\<open>o[v]\<close>. Integers print in decimal (as
  JavaScript does below \<open>10\<^sup>2\<^sup>1\<close>); an object prints as a plain object without a
  \<^verbatim>\<open>toString\<close> of its own does.
\<close>

function digits :: "nat \<Rightarrow> string" where
  "digits n = (if n < 10 then [''0123456789'' ! n] else digits (n div 10) @ [''0123456789'' ! (n mod 10)])"
  by pat_completeness auto
termination
  by (relation "measure id") auto

declare digits.simps [simp del]

definition to_key :: "val \<Rightarrow> string" where
  "to_key v = (case v of
      Undefined \<Rightarrow> ''undefined''
    | Null \<Rightarrow> ''null''
    | Bool b \<Rightarrow> if b then ''true'' else ''false''
    | Num n \<Rightarrow> if n < 0 then CHR ''-'' # digits (nat (- n)) else digits (nat n)
    | NaN \<Rightarrow> ''NaN''
    | Str s \<Rightarrow> s
    | Ref a \<Rightarrow> ''[object Object]'')"

section \<open>Resolving a constructor's options\<close>

text \<open>
  \<^verbatim>\<open>mergeOptions\<close> is imported from \<^verbatim>\<open>../util/index\<close> and is not part of the sources
  at hand: it is a parameter of the model. It receives the parent configuration, the
  child configuration and the instance (\<^verbatim>\<open>undefined\<close> when the call passes two
  arguments), may read and write the heap, and returns a value or raises.
\<close>

type_synonym merge_fn = "val \<Rightarrow> val \<Rightarrow> val \<Rightarrow> heap \<Rightarrow> val result"

text \<open>
  \<^verbatim>\<open>resolveModifiedOptions\<close>: the loop over the keys of \<^verbatim>\<open>latest\<close>. \<^verbatim>\<open>modified\<close> starts
  as \<^verbatim>\<open>undefined\<close> and becomes a fresh object at the first difference.
\<close>

fun modified_loop :: "val \<Rightarrow> val \<Rightarrow> string list \<Rightarrow> val \<Rightarrow> heap \<Rightarrow> val result" where
  "modified_loop latest sealed [] modified h = (Inr modified, h)"
| "modified_loop latest sealed (key # keys) modified h =
     (case get_prop h latest key of
        Inl e \<Rightarrow> (Inl e, h)
      | Inr lv \<Rightarrow>
         (case get_prop h sealed key of
            Inl e \<Rightarrow> (Inl e, h)
          | Inr sv \<Rightarrow>
             if \<not> strict_eq lv sv then
               (let (m, h1) = (if \<not> truthy modified
                               then (let (a, h') = alloc (new_object None) h in (Ref a, h'))
                               else (modified, h))
                in case get_prop h1 latest key of
                     Inl e \<Rightarrow> (Inl e, h1)
                   | Inr lv' \<Rightarrow>
                      (case set_prop h1 m key lv' of
                         Inl e \<Rightarrow> (Inl e, h1)
                       | Inr h2 \<Rightarrow> modified_loop latest sealed keys m h2))
             else modified_loop latest sealed keys modified h))"

definition resolveModifiedOptions :: "val \<Rightarrow> heap \<Rightarrow> val result" where
  "resolveModifiedOptions Ctor h =
     (case get_prop h Ctor ''options'' of
        Inl e \<Rightarrow> (Inl e, h)
      | Inr latest \<Rightarrow>
         (case get_prop h Ctor ''sealedOptions'' of
            Inl e \<Rightarrow> (Inl e, h)
          | Inr sealed \<Rightarrow> modified_loop latest sealed (forin_keys h latest) Undefined h))"

text \<open>
  Modelled from the spec: \<^verbatim>\<open>extend\<close> is imported from \<^verbatim>\<open>../util/index\<close>, which is not
  among the sources (the name \<open>extend\<close> belongs to the record package here). The spec has the modified keys merged into \<^verbatim>\<open>extendOptions\<close>,
  mutating it in place: every key of the second argument is assigned on the first,
  which is returned.
\<close>

fun extend_loop :: "val \<Rightarrow> val \<Rightarrow> string list \<Rightarrow> heap \<Rightarrow> val result" where
  "extend_loop to from [] h = (Inr to, h)"
| "extend_loop to from (key # keys) h =
     (case get_prop h from key of
        Inl e \<Rightarrow> (Inl e, h)
      | Inr v \<Rightarrow>
         (case set_prop h to key v of
            Inl e \<Rightarrow> (Inl e, h)
          | Inr h' \<Rightarrow> extend_loop to from keys h'))"

definition extend_util :: "val \<Rightarrow> val \<Rightarrow> heap \<Rightarrow> val result" where
  "extend_util to from h = extend_loop to from (forin_keys h from) h"

text \<open>
  The body of \<^verbatim>\<open>if (superOptions !== cachedSuperOptions) { ... }\<close> in
  \<^verbatim>\<open>resolveConstructorOptions\<close>, in three parts: the update of the cache and of
  \<^verbatim>\<open>extendOptions\<close>, the merge with the assignment of \<^verbatim>\<open>Ctor.options\<close>, and the
  registration under \<^verbatim>\<open>options.name\<close>.
\<close>

definition update_extendOptions :: "val \<Rightarrow> val \<Rightarrow> heap \<Rightarrow> unit result" where
  "update_extendOptions Ctor superOptions h =
     (case set_prop h Ctor ''superOptions'' superOptions of
        Inl e \<Rightarrow> (Inl e, h)
      | Inr h1 \<Rightarrow>
         (case resolveModifiedOptions Ctor h1 of
            (Inl e, h2) \<Rightarrow> (Inl e, h2)
          | (Inr modifiedOptions, h2) \<Rightarrow>
             if truthy modifiedOptions then
               (case get_prop h2 Ctor ''extendOptions'' of
                  Inl e \<Rightarrow> (Inl e, h2)
                | Inr extendOptions \<Rightarrow>
                   (case extend_util extendOptions modifiedOptions h2 of
                      (Inl e, h3) \<Rightarrow> (Inl e, h3)
                    | (Inr _, h3) \<Rightarrow> (Inr (), h3)))
             else (Inr (), h2)))"

definition merge_and_store :: "merge_fn \<Rightarrow> val \<Rightarrow> val \<Rightarrow> heap \<Rightarrow> val result" where
  "merge_and_store mergeOptions Ctor superOptions h =
     (case get_prop h Ctor ''extendOptions'' of
        Inl e \<Rightarrow> (Inl e, h)
      | Inr extendOptions \<Rightarrow>
         (case mergeOptions superOptions extendOptions Undefined h of
            (Inl e, h1) \<Rightarrow> (Inl e, h1)
          | (Inr options, h1) \<Rightarrow>
             (case set_prop h1 Ctor ''options'' options of
                Inl e \<Rightarrow> (Inl e, h1)
              | Inr h2 \<Rightarrow> (Inr options, h2))))"

definition register_name :: "val \<Rightarrow> val \<Rightarrow> heap \<Rightarrow> val result" where
  "register_name Ctor options h =
     (case get_prop h options ''name'' of
        Inl e \<Rightarrow> (Inl e, h)
      | Inr name \<Rightarrow>
         if truthy name then
           (case get_prop h options ''components'' of
              Inl e \<Rightarrow> (Inl e, h)
            | Inr components \<Rightarrow>
               (case set_prop h components (to_key name) Ctor of
                  Inl e \<Rightarrow> (Inl e, h)
                | Inr h1 \<Rightarrow> (Inr options, h1)))
         else (Inr options, h))"

definition remerge :: "merge_fn \<Rightarrow> val \<Rightarrow> val \<Rightarrow> heap \<Rightarrow> val result" where
  "remerge mergeOptions Ctor superOptions h =
     (case update_extendOptions Ctor superOptions h of
        (Inl e, h1) \<Rightarrow> (Inl e, h1)
      | (Inr _, h1) \<Rightarrow>
         (case merge_and_store mergeOptions Ctor superOptions h1 of
            (Inl e, h2) \<Rightarrow> (Inl e, h2)
          | (Inr options, h2) \<Rightarrow> register_name Ctor options h2))"

text \<open>
  \<^verbatim>\<open>resolveConstructorOptions\<close> calls itself on \<^verbatim>\<open>Ctor.super\<close>. The first argument
  after the merge function is the number of stack frames left: a chain of \<^verbatim>\<open>super\<close>
  links longer than the stack (a cyclic one, for instance) ends in a RangeError.
\<close>

fun resolveConstructorOptions :: "merge_fn \<Rightarrow> nat \<Rightarrow> val \<Rightarrow> heap \<Rightarrow> val result" where
  "resolveConstructorOptions mergeOptions 0 Ctor h = (Inl RangeError, h)"
| "resolveConstructorOptions mergeOptions (Suc depth) Ctor h =
     (case get_prop h Ctor ''options'' of
        Inl e \<Rightarrow> (Inl e, h)
      | Inr options \<Rightarrow>
         (case get_prop h Ctor ''super'' of
            Inl e \<Rightarrow> (Inl e, h)
          | Inr super \<Rightarrow>
             if truthy super then
               (case resolveConstructorOptions mergeOptions depth super h of
                  (Inl e, h1) \<Rightarrow> (Inl e, h1)
                | (Inr superOptions, h1) \<Rightarrow>
                   (case get_prop h1 Ctor ''superOptions'' of
                      Inl e \<Rightarrow> (Inl e, h1)
                    | Inr cachedSuperOptions \<Rightarrow>
                       if \<not> strict_eq superOptions cachedSuperOptions
                       then remerge mergeOptions Ctor superOptions h1
                       else (Inr options, h1)))
             else (Inr options, h)))"


section \<open>The initializer\<close>

text \<open>Sequencing of heap computations: an exception ends the sequence.\<close>

type_synonym 'a comp = "heap \<Rightarrow> 'a result"

definition ret :: "'a \<Rightarrow> 'a comp" where
  "ret x h = (Inr x, h)"

definition seq :: "'a comp \<Rightarrow> ('a \<Rightarrow> 'b comp) \<Rightarrow> 'b comp" where
  "seq f g h = (case f h of (Inl e, h1) \<Rightarrow> (Inl e, h1) | (Inr x, h1) \<Rightarrow> g x h1)"

definition getp :: "val \<Rightarrow> string \<Rightarrow> val comp" where
  "getp v k h = (get_prop h v k, h)"

definition setp :: "val \<Rightarrow> string \<Rightarrow> val \<Rightarrow> unit comp" where
  "setp v k x h = (case set_prop h v k x of Inl e \<Rightarrow> (Inl e, h) | Inr h' \<Rightarrow> (Inr (), h'))"

text \<open>\<^verbatim>\<open>target[k] = rhs\<close>\<close>

definition assign :: "val \<Rightarrow> string \<Rightarrow> val comp \<Rightarrow> unit comp" where
  "assign target k rhs = seq rhs (setp target k)"

text \<open>\<^verbatim>\<open>Object.create(p)\<close>: \<^verbatim>\<open>p\<close> must be an object or \<^verbatim>\<open>null\<close>.\<close>

definition object_create :: "val \<Rightarrow> val comp" where
  "object_create p h = (case p of
      Ref a \<Rightarrow> if a < length h
               then (let (n, h') = alloc (new_object (Some a)) h in (Inr (Ref n), h'))
               else (Inl TypeError, h)
    | Null \<Rightarrow> (let (n, h') = alloc (new_object None) h in (Inr (Ref n), h'))
    | _ \<Rightarrow> (Inl TypeError, h))"

definition initInternalComponent :: "val \<Rightarrow> val \<Rightarrow> unit comp" where
  "initInternalComponent vm options =
     seq (getp vm ''constructor'') (\<lambda>ctor.
     seq (getp ctor ''options'') (\<lambda>ctorOptions.
     seq (object_create ctorOptions) (\<lambda>opts.
     seq (setp vm ''$options'' opts) (\<lambda>_.
     seq (getp options ''_parentVnode'') (\<lambda>parentVnode.
     seq (assign opts ''parent'' (getp options ''parent'')) (\<lambda>_.
     seq (setp opts ''_parentVnode'' parentVnode) (\<lambda>_.
     seq (getp parentVnode ''componentOptions'') (\<lambda>vnodeComponentOptions.
     seq (assign opts ''propsData'' (getp vnodeComponentOptions ''propsData'')) (\<lambda>_.
     seq (assign opts ''_parentListeners'' (getp vnodeComponentOptions ''listeners'')) (\<lambda>_.
     seq (assign opts ''_renderChildren'' (getp vnodeComponentOptions ''children'')) (\<lambda>_.
     seq (assign opts ''_componentTag'' (getp vnodeComponentOptions ''tag'')) (\<lambda>_.
     seq (getp options ''render'') (\<lambda>render.
     if truthy render then
       seq (assign opts ''render'' (getp options ''render'')) (\<lambda>_.
       assign opts ''staticRenderFns'' (getp options ''staticRenderFns''))
     else ret ())))))))))))))"

text \<open>
  The functions \<^verbatim>\<open>_init\<close> imports from other modules, and \<^verbatim>\<open>vm.$mount\<close>, are not part
  of the sources at hand: they are parameters of the model. Each receives its arguments
  and the heap, and returns or raises. \<open>production\<close> is the build flag
  \<^verbatim>\<open>process.env.NODE_ENV === "production"\<close>; \<open>stack\<close> is the number of stack frames
  available to the recursion of \<^verbatim>\<open>resolveConstructorOptions\<close>; \<open>call_other\<close> runs a
  function object other than \<^verbatim>\<open>_init\<close> on a receiver and an argument.

  A collaborator works on the heap. It cannot reach the counter \<^verbatim>\<open>uid\<close>, which is
  private to the module, and in the model it does not call \<^verbatim>\<open>_init\<close> itself: a
  construction started from within a collaborator (a child made while its parent
  mounts) is the next construction of a sequence, which is the order in which the two
  reach \<^verbatim>\<open>uid++\<close>. The counter is a natural number; JavaScript numbers count
  exactly far beyond any number of instances a process can make.
\<close>

record collaborators =
  production :: bool
  stack :: nat
  mergeOptions :: merge_fn
  initProxy :: "val \<Rightarrow> unit comp"
  initLifecycle :: "val \<Rightarrow> unit comp"
  initEvents :: "val \<Rightarrow> unit comp"
  initRender :: "val \<Rightarrow> unit comp"
  callHook :: "val \<Rightarrow> string \<Rightarrow> unit comp"
  initInjections :: "val \<Rightarrow> unit comp"
  initState :: "val \<Rightarrow> unit comp"
  initProvide :: "val \<Rightarrow> unit comp"
  mount :: "val \<Rightarrow> val \<Rightarrow> unit comp"
  warn :: "string \<Rightarrow> unit comp"
  call_other :: "nat \<Rightarrow> val \<Rightarrow> val \<Rightarrow> unit comp"

text \<open>
  What a run leaves behind for an observer, in order: the value \<^verbatim>\<open>uid++\<close> gave, the
  statements of \<^verbatim>\<open>_init\<close> from the proxy on as they are entered, and the warning of the
  constructor function.
\<close>

datatype step =
    InitProxy            \<comment> \<open>\<^verbatim>\<open>initProxy(vm)\<close>, development builds\<close>
  | SetRenderProxy       \<comment> \<open>\<^verbatim>\<open>vm._renderProxy = vm\<close>, production builds\<close>
  | SetSelf              \<comment> \<open>\<^verbatim>\<open>vm._self = vm\<close>\<close>
  | InitLifecycle
  | InitEvents
  | InitRender
  | CallHook string
  | InitInjections
  | InitState
  | InitProvide
  | Mount val            \<comment> \<open>\<^verbatim>\<open>vm.$mount(el)\<close>\<close>

datatype event =
    Uid val nat          \<comment> \<open>\<^verbatim>\<open>vm._uid = uid++\<close> took this number for this instance\<close>
  | Ran val step
  | Warned string
  | Called nat           \<comment> \<open>a function other than \<^verbatim>\<open>_init\<close> was called as \<^verbatim>\<open>this._init\<close>\<close>

text \<open>
  The module's state: the counter \<^verbatim>\<open>let uid = 0\<close>, which only \<^verbatim>\<open>_init\<close> can reach,
  and the heap.
\<close>

record state =
  uid :: nat
  heap :: heap

type_synonym outcome = "(error + unit) \<times> event list \<times> state"

definition initial_state :: "heap \<Rightarrow> state" where
  "initial_state h = \<lparr>uid = 0, heap = h\<rparr>"

text \<open>Lines 30 to 53 of \<^verbatim>\<open>_init\<close>: the two ways to \<^verbatim>\<open>vm.$options\<close>.\<close>

definition init_options :: "collaborators \<Rightarrow> val \<Rightarrow> val \<Rightarrow> unit comp" where
  "init_options env vm options =
     seq (if truthy options then getp options ''_isComponent'' else ret options) (\<lambda>internal.
     if truthy internal then initInternalComponent vm options
     else
       seq (getp vm ''constructor'') (\<lambda>ctor.
       seq (resolveConstructorOptions (mergeOptions env) (stack env) ctor) (\<lambda>resolved.
       seq (if truthy options then ret options
            else (\<lambda>h. let (n, h') = alloc (new_object None) h in (Inr (Ref n), h'))) (\<lambda>child.
       seq (mergeOptions env resolved child vm) (\<lambda>merged.
       setp vm ''$options'' merged)))))"

text \<open>Lines 54 to 81: the fixed sequence, each statement recorded as it is entered.\<close>

fun run_steps :: "val \<Rightarrow> (step \<times> unit comp) list \<Rightarrow> heap \<Rightarrow> (error + unit) \<times> event list \<times> heap" where
  "run_steps vm [] h = (Inr (), [], h)"
| "run_steps vm ((st, f) # rest) h =
     (case f h of
        (Inl e, h1) \<Rightarrow> (Inl e, [Ran vm st], h1)
      | (Inr _, h1) \<Rightarrow>
         (case run_steps vm rest h1 of (r, evs, h2) \<Rightarrow> (r, Ran vm st # evs, h2)))"

definition init_sequence :: "collaborators \<Rightarrow> val \<Rightarrow> (step \<times> unit comp) list" where
  "init_sequence env vm =
     [ if \<not> production env then (InitProxy, initProxy env vm)
       else (SetRenderProxy, setp vm ''_renderProxy'' vm),
       (SetSelf, setp vm ''_self'' vm),
       (InitLifecycle, initLifecycle env vm),
       (InitEvents, initEvents env vm),
       (InitRender, initRender env vm),
       (CallHook ''beforeCreate'', callHook env vm ''beforeCreate''),
       (InitInjections, initInjections env vm),
       (InitState, initState env vm),
       (InitProvide, initProvide env vm),
       (CallHook ''created'', callHook env vm ''created'') ]"

text \<open>Lines 84 to 87: \<^verbatim>\<open>if (vm.$options.el) { vm.$mount(vm.$options.el) }\<close>.\<close>

definition read_el :: "val \<Rightarrow> val comp" where
  "read_el vm = seq (getp vm ''$options'') (\<lambda>opts. getp opts ''el'')"

definition init_mount :: "collaborators \<Rightarrow> val \<Rightarrow> heap \<Rightarrow> (error + unit) \<times> event list \<times> heap" where
  "init_mount env vm h =
     (case read_el vm h of
        (Inl e, h1) \<Rightarrow> (Inl e, [], h1)
      | (Inr el, h1) \<Rightarrow>
         if truthy el then
           (case read_el vm h1 of
              (Inl e, h2) \<Rightarrow> (Inl e, [], h2)
            | (Inr el', h2) \<Rightarrow> run_steps vm [(Mount el', mount env vm el')] h2)
         else (Inr (), [], h1))"

text \<open>
  The statements of \<^verbatim>\<open>_init\<close> after \<^verbatim>\<open>uid++\<close>, which gave \<open>n\<close>: first up to the
  \<^verbatim>\<open>created\<close> hook, then all of them.
\<close>

definition init_until_created ::
  "collaborators \<Rightarrow> val \<Rightarrow> val \<Rightarrow> nat \<Rightarrow> heap \<Rightarrow> (error + unit) \<times> event list \<times> heap" where
  "init_until_created env vm options n h =
     (case seq (setp vm ''_uid'' (Num (int n))) (\<lambda>_.
           seq (setp vm ''_isVue'' (Bool True)) (\<lambda>_.
           init_options env vm options)) h of
        (Inl e, h1) \<Rightarrow> (Inl e, [], h1)
      | (Inr _, h1) \<Rightarrow> run_steps vm (init_sequence env vm) h1)"

definition init_body ::
  "collaborators \<Rightarrow> val \<Rightarrow> val \<Rightarrow> nat \<Rightarrow> heap \<Rightarrow> (error + unit) \<times> event list \<times> heap" where
  "init_body env vm options n h =
     (case init_until_created env vm options n h of
        (Inl e, evs, h2) \<Rightarrow> (Inl e, evs, h2)
      | (Inr _, evs, h2) \<Rightarrow>
         (case init_mount env vm h2 of (r, evs', h3) \<Rightarrow> (r, evs @ evs', h3)))"

text \<open>
  Lines 27 to 87 on their own: what \<^verbatim>\<open>_init\<close> runs once \<^verbatim>\<open>vm._uid = uid++\<close> is
  done.
\<close>

definition init_after_uid ::
  "collaborators \<Rightarrow> val \<Rightarrow> val \<Rightarrow> heap \<Rightarrow> (error + unit) \<times> event list \<times> heap" where
  "init_after_uid env vm options h =
     (case seq (setp vm ''_isVue'' (Bool True)) (\<lambda>_. init_options env vm options) h of
        (Inl e, h1) \<Rightarrow> (Inl e, [], h1)
      | (Inr _, h1) \<Rightarrow>
         (case run_steps vm (init_sequence env vm) h1 of
            (Inl e, evs, h2) \<Rightarrow> (Inl e, evs, h2)
          | (Inr _, evs, h2) \<Rightarrow>
             (case init_mount env vm h2 of (r, evs', h3) \<Rightarrow> (r, evs @ evs', h3))))"

text \<open>\<^verbatim>\<open>Vue.prototype._init\<close>, called on \<open>vm\<close> with \<open>options\<close>.\<close>

definition Vue_prototype_init :: "collaborators \<Rightarrow> val \<Rightarrow> val \<Rightarrow> state \<Rightarrow> outcome" where
  "Vue_prototype_init env vm options s =
     (let n = uid s;
          s1 = s\<lparr>uid := uid s + 1\<rparr>
      in case init_body env vm options n (heap s1) of
           (r, evs, h') \<Rightarrow> (r, Uid vm n # evs, s1\<lparr>heap := h'\<rparr>))"

text \<open>
  A sequence of constructions, each a call of \<^verbatim>\<open>_init\<close> on an instance with its
  options; a construction that raises does not stop the ones after it (their caller
  may catch the exception).
\<close>

fun construct_all :: "collaborators \<Rightarrow> (val \<times> val) list \<Rightarrow> state \<Rightarrow> event list \<times> state" where
  "construct_all env [] s = ([], s)"
| "construct_all env ((vm, options) # rest) s =
     (case Vue_prototype_init env vm options s of
        (r, evs, s1) \<Rightarrow> (case construct_all env rest s1 of (evs', s2) \<Rightarrow> (evs @ evs', s2)))"

definition uids_taken :: "event list \<Rightarrow> (val \<times> nat) list" where
  "uids_taken evs = concat (map (\<lambda>ev. case ev of Uid vm n \<Rightarrow> [(vm, n)] | _ \<Rightarrow> []) evs)"

section \<open>The constructor function\<close>

text \<open>\<^verbatim>\<open>initMixin(Vue)\<close> installs the initializer on \<^verbatim>\<open>Vue.prototype\<close>.\<close>

definition initMixin :: "val \<Rightarrow> unit comp" where
  "initMixin Vue =
     seq (getp Vue ''prototype'') (\<lambda>prototype.
     seq (\<lambda>h. let (f, h') = alloc \<lparr>proto = None, props = [], callable = Some Code_init\<rparr> h
              in (Inr (Ref f), h')) (\<lambda>fn.
     setp prototype ''_init'' fn))"

text \<open>The objects on the prototype chain of an object, itself first.\<close>

function proto_chain :: "heap \<Rightarrow> addr \<Rightarrow> addr list" where
  "proto_chain h a =
     (if a < length h then
        a # (case proto (h ! a) of
               None \<Rightarrow> []
             | Some p \<Rightarrow> if p < a then proto_chain h p else [])
      else [])"
  by pat_completeness auto
termination
  by (relation "measure (\<lambda>(h, a). a)") auto

declare proto_chain.simps [simp del]

text \<open>
  \<^verbatim>\<open>v instanceof C\<close> for a function \<^verbatim>\<open>C\<close>: false when \<^verbatim>\<open>v\<close> is not an object, a
  TypeError when \<^verbatim>\<open>C.prototype\<close> is not one.
\<close>

definition instanceof :: "heap \<Rightarrow> val \<Rightarrow> val \<Rightarrow> error + bool" where
  "instanceof h v C = (case v of
      Ref a \<Rightarrow>
        (case get_prop h C ''prototype'' of
           Inl e \<Rightarrow> Inl e
         | Inr (Ref p) \<Rightarrow> Inr (p \<in> set (tl (proto_chain h a)))
         | Inr _ \<Rightarrow> Inl TypeError)
    | _ \<Rightarrow> Inr False)"

text \<open>\<^verbatim>\<open>this._init(options)\<close>: the property is looked up on the receiver and called.\<close>

definition call_init :: "collaborators \<Rightarrow> val \<Rightarrow> val \<Rightarrow> state \<Rightarrow> outcome" where
  "call_init env this options s =
     (case get_prop (heap s) this ''_init'' of
        Inl e \<Rightarrow> (Inl e, [], s)
      | Inr (Ref f) \<Rightarrow>
         if f < length (heap s) then
           (case callable (heap s ! f) of
              None \<Rightarrow> (Inl TypeError, [], s)
            | Some Code_init \<Rightarrow> Vue_prototype_init env this options s
            | Some (Code_other n) \<Rightarrow>
               (case call_other env n this options (heap s) of
                  (r, h') \<Rightarrow> (r, [Called n], s\<lparr>heap := h'\<rparr>)))
         else (Inl TypeError, [], s)
      | Inr _ \<Rightarrow> (Inl TypeError, [], s))"

definition new_warning :: string where
  "new_warning = ''Vue is a constructor and should be called with the `new` keyword''"

text \<open>
  \<^verbatim>\<open>function Vue(options)\<close>, called with receiver \<open>this\<close>; \<open>Vue\<close> is the function
  object itself. The module is strict-mode code: a plain call \<^verbatim>\<open>Vue(options)\<close> has
  \<^verbatim>\<open>undefined\<close> as its receiver.
\<close>

definition Vue_function :: "collaborators \<Rightarrow> val \<Rightarrow> val \<Rightarrow> val \<Rightarrow> state \<Rightarrow> outcome" where
  "Vue_function env Vue this options s =
     (if \<not> production env then
        (case instanceof (heap s) this Vue of
           Inl e \<Rightarrow> (Inl e, [], s)
         | Inr is_instance \<Rightarrow>
            if \<not> is_instance then
              (case warn env new_warning (heap s) of
                 (Inl e, h1) \<Rightarrow> (Inl e, [Warned new_warning], s\<lparr>heap := h1\<rparr>)
               | (Inr _, h1) \<Rightarrow>
                  (case call_init env this options (s\<lparr>heap := h1\<rparr>) of
                     (r, evs, s') \<Rightarrow> (r, Warned new_warning # evs, s')))
            else call_init env this options s)
      else call_init env this options s)"

text \<open>\<^verbatim>\<open>new Vue(options)\<close>: a fresh object whose prototype is \<^verbatim>\<open>Vue.prototype\<close> is the receiver.\<close>

definition new_Vue :: "collaborators \<Rightarrow> val \<Rightarrow> val \<Rightarrow> state \<Rightarrow> outcome" where
  "new_Vue env Vue options s =
     (case seq (getp Vue ''prototype'') object_create (heap s) of
        (Inl e, h1) \<Rightarrow> (Inl e, [], s\<lparr>heap := h1\<rparr>)
      | (Inr this, h1) \<Rightarrow> Vue_function env Vue this options (s\<lparr>heap := h1\<rparr>))"


section \<open>Notions used in the statements\<close>

text \<open>An own property of an object, as opposed to one found along the prototype chain.\<close>

definition own_prop :: "heap \<Rightarrow> addr \<Rightarrow> string \<Rightarrow> val option" where
  "own_prop h a k = (if a < length h then map_of (props (h ! a)) k else None)"

text \<open>
  The constructions of a sequence begun in state \<open>s\<close> are made on instances that are
  objects without a \<^verbatim>\<open>_uid\<close> of their own when their turn comes, and what \<^verbatim>\<open>_init\<close>
  runs after storing the number (the merge of the options, the initializers, the
  hooks, the mount) removes no object and leaves the \<^verbatim>\<open>_uid\<close> of every object as it
  finds it.
\<close>

fun undisturbed :: "collaborators \<Rightarrow> (val \<times> val) list \<Rightarrow> state \<Rightarrow> bool" where
  "undisturbed env [] s = True"
| "undisturbed env ((vm, options) # rest) s =
     (case vm of
        Ref v \<Rightarrow>
          v < length (heap s) \<and> own_prop (heap s) v ''_uid'' = None \<and>
          (let h0 = set_own (heap s) v ''_uid'' (Num (int (uid s)));
               h' = snd (snd (init_after_uid env vm options h0))
           in length h0 \<le> length h' \<and>
              (\<forall>a \<in> set [0 ..< length h0]. own_prop h' a ''_uid'' = own_prop h0 a ''_uid'') \<and>
              undisturbed env rest \<lparr>uid = uid s + 1, heap = h'\<rparr>)
      | _ \<Rightarrow> False)"

text \<open>
  The constructor \<open>c\<close> carries \<^verbatim>\<open>options\<close>, \<^verbatim>\<open>sealedOptions\<close> and \<^verbatim>\<open>extendOptions\<close> of
  its own, each an object of the heap, and \<^verbatim>\<open>extendOptions\<close> is not the constructor
  itself.
\<close>

definition class_fields :: "heap \<Rightarrow> addr \<Rightarrow> addr \<Rightarrow> addr \<Rightarrow> addr \<Rightarrow> bool" where
  "class_fields h c l s e =
     (c < length h \<and>
      own_prop h c ''options'' = Some (Ref l) \<and> l < length h \<and>
      own_prop h c ''sealedOptions'' = Some (Ref s) \<and> s < length h \<and>
      own_prop h c ''extendOptions'' = Some (Ref e) \<and> e < length h \<and> e \<noteq> c)"

text \<open>
  One round of the loop of \<^verbatim>\<open>resolveModifiedOptions\<close> and of \<^verbatim>\<open>extend\<close>, on the
  property list being built.
\<close>

definition diff_step :: "heap \<Rightarrow> addr \<Rightarrow> addr \<Rightarrow> string \<Rightarrow> (string \<times> val) list \<Rightarrow> (string \<times> val) list" where
  "diff_step h l s k ps =
     (if \<not> strict_eq (lookup h l k) (lookup h s k) then AList.update k (lookup h l k) ps else ps)"

definition copy_step :: "heap \<Rightarrow> addr \<Rightarrow> string \<Rightarrow> (string \<times> val) list \<Rightarrow> (string \<times> val) list" where
  "copy_step h m k ps = AList.update k (lookup h m k) ps"

definition modified_props :: "heap \<Rightarrow> addr \<Rightarrow> addr \<Rightarrow> (string \<times> val) list" where
  "modified_props h l s = fold (diff_step h l s) (forin_keys h (Ref l)) []"

text \<open>
  The heap after \<^verbatim>\<open>resolveModifiedOptions\<close> and \<^verbatim>\<open>extend\<close>, for a constructor whose
  \<^verbatim>\<open>options\<close>, \<^verbatim>\<open>sealedOptions\<close> and \<^verbatim>\<open>extendOptions\<close> are the objects \<open>l\<close>, \<open>s\<close>
  and \<open>e\<close>: unchanged when nothing was modified, else with the object \<^verbatim>\<open>modified\<close>
  allocated and its properties assigned on \<open>e\<close>.
\<close>

definition extended_heap :: "heap \<Rightarrow> addr \<Rightarrow> addr \<Rightarrow> addr \<Rightarrow> heap" where
  "extended_heap h l s e =
     (if modified_props h l s = [] then h
      else (let h' = h @ [(new_object None)\<lparr>props := modified_props h l s\<rparr>]
            in h'[e := (h' ! e)\<lparr>props :=
                 fold (copy_step h' (length h)) (forin_keys h' (Ref (length h))) (props (h' ! e))\<rparr>]))"

text \<open>
  Nothing is stale along the chain of \<^verbatim>\<open>super\<close> links of a constructor: at every
  link the parent's \<^verbatim>\<open>options\<close> is identical to the child's cached \<^verbatim>\<open>superOptions\<close>.
  The number bounds the length of the chain.
\<close>

fun up_to_date :: "nat \<Rightarrow> val \<Rightarrow> heap \<Rightarrow> bool" where
  "up_to_date 0 Ctor h = False"
| "up_to_date (Suc depth) Ctor h =
     (case Ctor of
        Ref c \<Rightarrow> c < length h \<and>
          (truthy (lookup h c ''super'') \<longrightarrow>
             (case lookup h c ''super'' of
                Ref p \<Rightarrow> up_to_date depth (Ref p) h \<and>
                         strict_eq (lookup h p ''options'') (lookup h c ''superOptions'')
              | _ \<Rightarrow> False))
      | _ \<Rightarrow> False)"

text \<open>
  \<open>sealed\<close> is a snapshot of \<open>options\<close>: two objects with the same keys and,
  under each key, identical values.
\<close>

definition snapshot_of :: "heap \<Rightarrow> val \<Rightarrow> val \<Rightarrow> bool" where
  "snapshot_of h sealed options = (case (sealed, options) of
      (Ref s, Ref l) \<Rightarrow>
        s < length h \<and> l < length h \<and>
        set (forin_keys h sealed) = set (forin_keys h options) \<and>
        list_all (\<lambda>k. lookup h s k = lookup h l k) (forin_keys h options)
    | _ \<Rightarrow> False)"

section \<open>A sample merge function and sample heaps\<close>

text \<open>
  Modelled from the spec: \<^verbatim>\<open>mergeOptions\<close> is not among the sources. The spec describes
  it as combining two configuration objects by per-key strategies, the child
  overriding. This instance applies the default strategy to every key: the result is
  a new object with the keys of the parent, then those of the child, each holding the
  child's value unless that is \<^verbatim>\<open>undefined\<close>. It serves as a concrete case; the
  theorems hold for every merge function.
\<close>

definition readable :: "heap \<Rightarrow> val \<Rightarrow> bool" where
  "readable h v = (case get_prop h v [] of Inl _ \<Rightarrow> False | Inr _ \<Rightarrow> True)"

definition read :: "heap \<Rightarrow> val \<Rightarrow> string \<Rightarrow> val" where
  "read h v k = (case get_prop h v k of Inl _ \<Rightarrow> Undefined | Inr x \<Rightarrow> x)"

definition defaultStrat :: "val \<Rightarrow> val \<Rightarrow> val" where
  "defaultStrat parentVal childVal = (if childVal = Undefined then parentVal else childVal)"

definition mergeOptions_defaultStrat :: merge_fn where
  "mergeOptions_defaultStrat parent child vm h =
     (let keys = rev (remdups (rev (forin_keys h parent @ forin_keys h child)))
      in if keys \<noteq> [] \<and> \<not> (readable h parent \<and> readable h child) then (Inl TypeError, h)
         else (let (a, h') = alloc ((new_object None)
                    \<lparr>props := map (\<lambda>key. (key, defaultStrat (read h parent key) (read h child key))) keys\<rparr>) h
               in (Inr (Ref a), h')))"

definition plain :: "(string \<times> val) list \<Rightarrow> obj" where
  "plain ps = \<lparr>proto = None, props = ps, callable = None\<rparr>"

text \<open>
  A root constructor (object 0) whose options were replaced (object 1, formerly
  object 4), and a subclass (object 2) defined before that, with a key \<^verbatim>\<open>late\<close>
  attached to its options (object 3) after it was sealed (object 6).
\<close>

definition stale_heap :: heap where
  "stale_heap =
    [ plain [(''options'', Ref 1)],
      plain [(''a'', Num 1), (''components'', Ref 7)],
      plain [(''options'', Ref 3), (''super'', Ref 0), (''superOptions'', Ref 4),
             (''extendOptions'', Ref 5), (''sealedOptions'', Ref 6)],
      plain [(''b'', Num 2), (''name'', Str ''sub''), (''components'', Ref 7), (''late'', Num 3)],
      plain [(''components'', Ref 7)],
      plain [(''b'', Num 2), (''name'', Str ''sub'')],
      plain [(''b'', Num 2), (''name'', Str ''sub''), (''components'', Ref 7)],
      plain [] ]"

definition stale_heap_resolved :: heap where
  "stale_heap_resolved =
     snd (resolveConstructorOptions mergeOptions_defaultStrat 2 (Ref 2) stale_heap)"

text \<open>The heap of that example as the merge leaves it, before \<^verbatim>\<open>Ctor.options\<close> is assigned.\<close>

definition stale_heap_merged :: heap where
  "stale_heap_merged =
     snd (mergeOptions_defaultStrat (Ref 1) (Ref 5) Undefined
            (extended_heap (set_own stale_heap 2 ''superOptions'' (Ref 1)) 3 6 5))"

text \<open>The same two constructors with nothing stale.\<close>

definition settled_heap :: heap where
  "settled_heap =
    [ plain [(''options'', Ref 1)],
      plain [(''a'', Num 1)],
      plain [(''options'', Ref 3), (''super'', Ref 0), (''superOptions'', Ref 1),
             (''extendOptions'', Ref 4), (''sealedOptions'', Ref 5)],
      plain [(''a'', Num 1), (''b'', Num 2)],
      plain [(''b'', Num 2)],
      plain [(''a'', Num 1), (''b'', Num 2)] ]"


text \<open>The order of section 4.3 of the specification, steps 4 to 13.\<close>

definition lifecycle_order :: "bool \<Rightarrow> step list" where
  "lifecycle_order is_production =
     [ if is_production then SetRenderProxy else InitProxy, SetSelf, InitLifecycle, InitEvents, InitRender,
       CallHook ''beforeCreate'', InitInjections, InitState, InitProvide, CallHook ''created'' ]"

text \<open>
  What a call of \<^verbatim>\<open>_init\<close> made in state \<open>s\<close> leaves when it is ended by an
  exception \<open>r\<close> after entering the first \<open>k\<close> statements of that order, with the
  heap \<open>h\<close>.
\<close>

definition stopped :: "state \<Rightarrow> val \<Rightarrow> bool \<Rightarrow> nat \<Rightarrow> error + unit \<Rightarrow> heap \<Rightarrow> outcome" where
  "stopped s vm is_production k r h =
     (r, Uid vm (uid s) # map (Ran vm) (take k (lifecycle_order is_production)),
      \<lparr>uid = uid s + 1, heap = h\<rparr>)"

text \<open>
  The object \<^verbatim>\<open>initInternalComponent\<close> builds from the constructor's options \<open>co\<close>,
  the supplied options \<open>o'\<close>, the virtual node \<open>pv\<close> and its component options
  \<open>cp\<close>.
\<close>

definition internal_options :: "heap \<Rightarrow> addr \<Rightarrow> addr \<Rightarrow> addr \<Rightarrow> addr \<Rightarrow> obj" where
  "internal_options h co o' pv cp =
     \<lparr>proto = Some co,
      props = [(''parent'', lookup h o' ''parent''),
               (''_parentVnode'', Ref pv),
               (''propsData'', lookup h cp ''propsData''),
               (''_parentListeners'', lookup h cp ''listeners''),
               (''_renderChildren'', lookup h cp ''children''),
               (''_componentTag'', lookup h cp ''tag'')] @
              (if truthy (lookup h o' ''render'')
               then [(''render'', lookup h o' ''render''),
                     (''staticRenderFns'', lookup h o' ''staticRenderFns'')]
               else []),
      callable = None\<rparr>"

text \<open>Collaborators that do nothing, in a development build, with the sample merge.\<close>

definition idle_collaborators :: collaborators where
  "idle_collaborators =
     \<lparr>production = False, stack = 8, mergeOptions = mergeOptions_defaultStrat,
      initProxy = (\<lambda>vm. ret ()), initLifecycle = (\<lambda>vm. ret ()), initEvents = (\<lambda>vm. ret ()),
      initRender = (\<lambda>vm. ret ()), callHook = (\<lambda>vm hook. ret ()), initInjections = (\<lambda>vm. ret ()),
      initState = (\<lambda>vm. ret ()), initProvide = (\<lambda>vm. ret ()), mount = (\<lambda>vm el. ret ()),
      warn = (\<lambda>msg. ret ()), call_other = (\<lambda>n this arg. ret ())\<rparr>"

text \<open>
  Collaborators that leave a mark on the instance: each initializer sets a property
  of its own name, a hook stores under its name what \<^verbatim>\<open>vm.initState\<close> is when it
  runs, and \<^verbatim>\<open>$mount\<close> stores its argument. The order of the properties of the
  instance is then the order of the calls.
\<close>

definition recording_collaborators :: collaborators where
  "recording_collaborators =
     \<lparr>production = False, stack = 8, mergeOptions = mergeOptions_defaultStrat,
      initProxy = (\<lambda>vm. setp vm ''initProxy'' (Bool True)),
      initLifecycle = (\<lambda>vm. setp vm ''initLifecycle'' (Bool True)),
      initEvents = (\<lambda>vm. setp vm ''initEvents'' (Bool True)),
      initRender = (\<lambda>vm. setp vm ''initRender'' (Bool True)),
      callHook = (\<lambda>vm hook h. setp vm hook (read h vm ''initState'') h),
      initInjections = (\<lambda>vm. setp vm ''initInjections'' (Bool True)),
      initState = (\<lambda>vm. setp vm ''initState'' (Bool True)),
      initProvide = (\<lambda>vm. setp vm ''initProvide'' (Bool True)),
      mount = (\<lambda>vm el. setp vm ''$mount'' el),
      warn = (\<lambda>msg. ret ()), call_other = (\<lambda>n this arg. ret ())\<rparr>"

text \<open>
  The function \<^verbatim>\<open>Vue\<close> (object 0) with its prototype (1), the initializer (2) and its
  options (3); two instances made by \<^verbatim>\<open>new\<close> (4 and 6); the options of a root
  instance (5); and, for a child instance, the options the render pipeline passes (7),
  its virtual node (8) with component options (9), and a parent instance (10); and
  an object that is no instance of \<^verbatim>\<open>Vue\<close> but has the initializer as its \<^verbatim>\<open>_init\<close>
  (11).
\<close>

definition vue_heap :: heap where
  "vue_heap =
    [ \<lparr>proto = None, props = [(''prototype'', Ref 1), (''options'', Ref 3)], callable = Some (Code_other 0)\<rparr>,
      plain [(''constructor'', Ref 0), (''_init'', Ref 2)],
      \<lparr>proto = None, props = [], callable = Some Code_init\<rparr>,
      plain [(''a'', Num 1)],
      \<lparr>proto = Some 1, props = [], callable = None\<rparr>,
      plain [(''el'', Str ''#app'')],
      \<lparr>proto = Some 1, props = [], callable = None\<rparr>,
      plain [(''_isComponent'', Bool True), (''_parentVnode'', Ref 8), (''parent'', Ref 10)],
      plain [(''componentOptions'', Ref 9)],
      plain [(''propsData'', Str ''p''), (''listeners'', Str ''l''), (''children'', Str ''c''),
             (''tag'', Str ''t'')],
      \<lparr>proto = Some 1, props = [], callable = None\<rparr>,
      plain [(''_init'', Ref 2), (''constructor'', Ref 0)] ]"

section \<open>Facts about the heap\<close>

lemma lookup_agree:
  "a < length h \<Longrightarrow> a < length h' \<Longrightarrow> \<forall>i\<le>a. h ! i = h' ! i \<Longrightarrow> lookup h a k = lookup h' a k"
proof (induction a rule: less_induct)
  case (less a)
  have eq: "h ! a = h' ! a" using less.prems by simp
  show ?case
  proof (cases "map_of (props (h ! a)) k")
    case (Some v)
    then show ?thesis using less.prems eq by (simp add: lookup.simps [of h a] lookup.simps [of h' a])
  next
    case None
    show ?thesis
    proof (cases "proto (h ! a)")
      case pn: None
      then show ?thesis using None less.prems eq by (simp add: lookup.simps [of h a] lookup.simps [of h' a])
    next
      case (Some p)
      show ?thesis
      proof (cases "p < a")
        case True
        then have "lookup h p k = lookup h' p k"
          using less.IH [of p] less.prems by simp
        then show ?thesis using None Some True less.prems eq
          by (simp add: lookup.simps [of h a] lookup.simps [of h' a])
      next
        case False
        then show ?thesis using None Some less.prems eq
          by (simp add: lookup.simps [of h a] lookup.simps [of h' a])
      qed
    qed
  qed
qed

lemma lookup_append: "a < length h \<Longrightarrow> lookup (h @ xs) a k = lookup h a k"
  by (rule lookup_agree) (simp_all add: nth_append)

lemma lookup_update_above:
  assumes "a < b"
  shows "lookup (h[b := ob]) a k = lookup h a k"
proof (cases "a < length h")
  case True
  then show ?thesis using assms by (intro lookup_agree) simp_all
next
  case False
  then show ?thesis by (simp add: lookup.simps [of _ a])
qed

lemma lookup_set_own_above: "a < b \<Longrightarrow> lookup (set_own h b k' x) a k = lookup h a k"
  by (simp add: set_own_def lookup_update_above)

lemma lookup_set_own_other_key:
  "k \<noteq> k' \<Longrightarrow> lookup (set_own h b k' x) a k = lookup h a k"
proof (induction a rule: less_induct)
  case (less a)
  show ?case
  proof (cases "a < length h")
    case False
    then show ?thesis by (simp add: lookup.simps [of _ a] set_own_def)
  next
    case True
    have pr: "proto (set_own h b k' x ! a) = proto (h ! a)"
      using True by (cases "a = b") (simp_all add: set_own_def)
    have mp: "map_of (props (set_own h b k' x ! a)) k = map_of (props (h ! a)) k"
      using True less.prems by (cases "a = b") (simp_all add: set_own_def update_conv')
    have len: "a < length (set_own h b k' x)" using True by (simp add: set_own_def)
    show ?thesis
      using less.IH less.prems True len
      by (simp add: lookup.simps [of h a] lookup.simps [of "set_own h b k' x" a] pr mp
               split: option.splits)
  qed
qed

lemma lookup_set_own_same:
  "a < length h \<Longrightarrow> lookup (set_own h a k x) a k = x"
  by (simp add: lookup.simps [of _ a] set_own_def update_conv')

lemma lookup_own:
  "a < length h \<Longrightarrow> map_of (props (h ! a)) k = Some v \<Longrightarrow> lookup h a k = v"
  by (simp add: lookup.simps [of _ a])

lemma length_set_own [simp]: "length (set_own h a k x) = length h"
  by (simp add: set_own_def)


lemma set_own_top:
  "set_own (h0 @ [ob]) (length h0) k v = h0 @ [ob\<lparr>props := AList.update k v (props ob)\<rparr>]"
  by (simp add: set_own_def)

lemma modified_loop_acc:
  assumes "l < length h0" "s < length h0"
  shows "modified_loop (Ref l) (Ref s) keys (Ref (length h0)) (h0 @ [ob]) =
         (Inr (Ref (length h0)), h0 @ [ob\<lparr>props := fold (diff_step h0 l s) keys (props ob)\<rparr>])"
proof (induction keys arbitrary: ob)
  case Nil
  show ?case by simp
next
  case (Cons k keys)
  show ?case
    using assms Cons.IH [of "ob\<lparr>props := AList.update k (lookup h0 l k) (props ob)\<rparr>"] Cons.IH [of ob]
    by (simp add: get_prop_def set_prop_def lookup_append truthy_def set_own_top diff_step_def)
qed

lemma fold_diff_step_nonempty: "ps \<noteq> [] \<Longrightarrow> fold (diff_step h l s) keys ps \<noteq> []"
  by (induction keys arbitrary: ps) (simp_all add: diff_step_def)

lemma modified_loop_start:
  assumes "l < length h0" "s < length h0"
  shows "modified_loop (Ref l) (Ref s) keys Undefined h0 =
         (if fold (diff_step h0 l s) keys [] = [] then (Inr Undefined, h0)
          else (Inr (Ref (length h0)),
                h0 @ [(new_object None)\<lparr>props := fold (diff_step h0 l s) keys []\<rparr>]))"
proof (induction keys)
  case Nil
  show ?case by simp
next
  case (Cons k keys)
  show ?case
  proof (cases "strict_eq (lookup h0 l k) (lookup h0 s k)")
    case True
    then have st: "diff_step h0 l s k [] = []" by (simp add: diff_step_def)
    show ?thesis using assms Cons.IH True
      by (simp add: get_prop_def st)
  next
    case False
    have ne: "fold (diff_step h0 l s) keys [(k, lookup h0 l k)] \<noteq> []"
      by (rule fold_diff_step_nonempty) simp
    have st: "diff_step h0 l s k [] = [(k, lookup h0 l k)]"
      using False by (simp add: diff_step_def)
    show ?thesis
      using assms False ne
        modified_loop_acc [OF assms, of keys "(new_object None)\<lparr>props := [(k, lookup h0 l k)]\<rparr>"]
      by (simp add: get_prop_def set_prop_def truthy_def alloc_def lookup_append set_own_top
            st new_object_def)
  qed
qed

lemma map_of_fold_diff_step:
  "map_of (fold (diff_step h l s) keys ps) k =
     (if k \<in> set keys \<and> \<not> strict_eq (lookup h l k) (lookup h s k)
      then Some (lookup h l k) else map_of ps k)"
  by (induction keys arbitrary: ps) (auto simp: diff_step_def update_conv')

lemma map_of_fold_copy_step:
  "map_of (fold (copy_step h m) keys ps) k =
     (if k \<in> set keys then Some (lookup h m k) else map_of ps k)"
  by (induction keys arbitrary: ps) (auto simp: copy_step_def update_conv')

lemma lookup_no_proto:
  "a < length h \<Longrightarrow> proto (h ! a) = None \<Longrightarrow>
   lookup h a k = (case map_of (props (h ! a)) k of Some v \<Rightarrow> v | None \<Rightarrow> Undefined)"
  by (simp add: lookup.simps [of _ a] split: option.splits)

lemma chain_keys_no_proto:
  "a < length h \<Longrightarrow> proto (h ! a) = None \<Longrightarrow> chain_keys h a = map fst (props (h ! a))"
  by (simp add: chain_keys.simps [of _ a])

lemma extend_loop_closed:
  assumes "e < length h" "m < length h" "e \<noteq> m" "proto (h ! m) = None"
  shows "extend_loop (Ref e) (Ref m) keys h =
         (Inr (Ref e), h[e := (h ! e)\<lparr>props := fold (copy_step h m) keys (props (h ! e))\<rparr>])"
  using assms
proof (induction keys arbitrary: h)
  case Nil
  then show ?case by simp
next
  case (Cons k keys)
  let ?h' = "set_own h e k (lookup h m k)"
  have m': "?h' ! m = h ! m" using Cons.prems by (simp add: set_own_def)
  have lk: "lookup ?h' m k' = lookup h m k'" for k'
    using Cons.prems m' by (simp add: lookup_no_proto)
  have cs: "copy_step ?h' m = copy_step h m"
    by (simp add: copy_step_def fun_eq_iff lk)
  have "extend_loop (Ref e) (Ref m) keys ?h' =
        (Inr (Ref e), ?h'[e := (?h' ! e)\<lparr>props := fold (copy_step ?h' m) keys (props (?h' ! e))\<rparr>])"
    using Cons.prems m' by (intro Cons.IH) simp_all
  then show ?case
    using Cons.prems
    by (simp add: get_prop_def set_prop_def cs) (simp add: set_own_def copy_step_def)
qed


lemma lookup_own_prop: "own_prop h a k = Some v \<Longrightarrow> lookup h a k = v"
  by (simp add: own_prop_def lookup.simps [of _ a] split: if_splits)

lemma own_prop_length: "own_prop h a k = Some v \<Longrightarrow> a < length h"
  by (simp add: own_prop_def split: if_splits)

lemma own_prop_set_own:
  "own_prop (set_own h b k' x) a k =
     (if a = b \<and> k = k' \<and> a < length h then Some x else own_prop h a k)"
  by (cases "a = b") (simp_all add: own_prop_def set_own_def update_conv')

lemma own_prop_append: "a < length h \<Longrightarrow> own_prop (h @ xs) a k = own_prop h a k"
  by (simp add: own_prop_def nth_append)

lemma own_prop_update_other: "a \<noteq> b \<Longrightarrow> own_prop (h[b := ob]) a k = own_prop h a k"
  by (simp add: own_prop_def)

lemma own_prop_update_same:
  "b < length h \<Longrightarrow> own_prop (h[b := ob]) b k = map_of (props ob) k"
  by (simp add: own_prop_def)

lemma update_extendOptions_closed:
  assumes "c < length h1"
    and "lookup (set_own h1 c ''superOptions'' spo) c ''options'' = Ref l" and "l < length h1"
    and "lookup (set_own h1 c ''superOptions'' spo) c ''sealedOptions'' = Ref s" and "s < length h1"
    and "lookup (set_own h1 c ''superOptions'' spo) c ''extendOptions'' = Ref e" and "e < length h1"
  shows "update_extendOptions (Ref c) spo h1 =
         (Inr (), extended_heap (set_own h1 c ''superOptions'' spo) l s e)"
proof -
  let ?h2 = "set_own h1 c ''superOptions'' spo"
  let ?D = "modified_props ?h2 l s"
  let ?h' = "?h2 @ [(new_object None)\<lparr>props := ?D\<rparr>]"
  have rm: "resolveModifiedOptions (Ref c) ?h2 =
            (if ?D = [] then (Inr Undefined, ?h2) else (Inr (Ref (length ?h2)), ?h'))"
    using assms modified_loop_start [of l ?h2 s "forin_keys ?h2 (Ref l)"]
    by (simp add: resolveModifiedOptions_def get_prop_def modified_props_def)
  show ?thesis
  proof (cases "?D = []")
    case True
    then show ?thesis using assms rm
      by (simp add: update_extendOptions_def set_prop_def extended_heap_def truthy_def)
  next
    case False
    have le: "lookup ?h' c ''extendOptions'' = Ref e"
      using assms by (simp add: lookup_append)
    have ex: "extend_util (Ref e) (Ref (length ?h2)) ?h' =
          (Inr (Ref e), ?h'[e := (?h' ! e)\<lparr>props :=
             fold (copy_step ?h' (length ?h2)) (forin_keys ?h' (Ref (length ?h2))) (props (?h' ! e))\<rparr>])"
      unfolding extend_util_def using assms
      by (intro extend_loop_closed) (simp_all add: new_object_def nth_append)
    show ?thesis using assms rm False le ex
      by (simp add: update_extendOptions_def set_prop_def extended_heap_def truthy_def get_prop_def Let_def)
  qed
qed

lemma set_forin_keys_top:
  "set (forin_keys (h @ [ob\<lparr>proto := None\<rparr>]) (Ref (length h))) = fst ` set (props ob)"
  by (simp add: forin_keys_def chain_keys_no_proto)

lemma extended_heap_length: "length h \<le> length (extended_heap h l s e)"
  by (simp add: extended_heap_def Let_def)

lemma extended_heap_own_other:
  "a < length h \<Longrightarrow> a \<noteq> e \<Longrightarrow> own_prop (extended_heap h l s e) a k = own_prop h a k"
  by (simp add: extended_heap_def Let_def own_prop_update_other own_prop_append)

lemma extended_heap_own_e:
  assumes "e < length h"
  shows "own_prop (extended_heap h l s e) e k =
         (if k \<in> set (forin_keys h (Ref l)) \<and> \<not> strict_eq (lookup h l k) (lookup h s k)
          then Some (lookup h l k) else own_prop h e k)"
proof (cases "modified_props h l s = []")
  case True
  then have "map_of (modified_props h l s) k = None" by simp
  then have "\<not> (k \<in> set (forin_keys h (Ref l)) \<and> \<not> strict_eq (lookup h l k) (lookup h s k))"
    by (simp add: modified_props_def map_of_fold_diff_step split: if_splits)
  then show ?thesis using True
    by (auto simp add: extended_heap_def)
next
  case False
  let ?D = "modified_props h l s"
  let ?ob = "(new_object None)\<lparr>props := ?D\<rparr>"
  let ?h' = "h @ [?ob]"
  have ks: "set (forin_keys ?h' (Ref (length h))) = fst ` set ?D"
    using set_forin_keys_top [of h ?ob] by (simp add: new_object_def)
  have lk: "lookup ?h' (length h) k = (case map_of ?D k of Some v \<Rightarrow> v | None \<Rightarrow> Undefined)"
    by (simp add: lookup_no_proto new_object_def)
  have dom: "k \<in> fst ` set ?D \<longleftrightarrow> map_of ?D k \<noteq> None"
    by (simp add: map_of_eq_None_iff)
  have mD: "map_of ?D k =
        (if k \<in> set (forin_keys h (Ref l)) \<and> \<not> strict_eq (lookup h l k) (lookup h s k)
         then Some (lookup h l k) else None)"
    by (simp add: modified_props_def map_of_fold_diff_step)
  show ?thesis
    using assms False
    by (simp add: extended_heap_def Let_def own_prop_update_same map_of_fold_copy_step ks lk dom mD
          nth_append own_prop_def)
qed


lemma resolve_stale:
  assumes "c < length h" and "truthy (lookup h c ''super'')"
    and "resolveConstructorOptions mrg depth (lookup h c ''super'') h = (Inr superOptions, h1)"
    and "c < length h1"
    and "\<not> strict_eq superOptions (lookup h1 c ''superOptions'')"
  shows "resolveConstructorOptions mrg (Suc depth) (Ref c) h =
         remerge mrg (Ref c) superOptions h1"
  using assms by (simp add: get_prop_def)

lemma remerge_closed:
  assumes c: "c < length h1"
    and l: "own_prop h1 c ''options'' = Some (Ref l)" "l < length h1"
    and s: "own_prop h1 c ''sealedOptions'' = Some (Ref s)" "s < length h1"
    and e: "own_prop h1 c ''extendOptions'' = Some (Ref e)" "e < length h1" "e \<noteq> c"
    and mg: "mrg superOptions (Ref e) Undefined
               (extended_heap (set_own h1 c ''superOptions'' superOptions) l s e) = (Inr (Ref m), h4)"
    and h4: "c < length h4"
  shows "remerge mrg (Ref c) superOptions h1 =
         register_name (Ref c) (Ref m) (set_own h4 c ''options'' (Ref m))"
proof -
  let ?h2 = "set_own h1 c ''superOptions'' superOptions"
  let ?h3 = "extended_heap ?h2 l s e"
  have o2: "own_prop ?h2 c ''options'' = Some (Ref l)"
    "own_prop ?h2 c ''sealedOptions'' = Some (Ref s)"
    "own_prop ?h2 c ''extendOptions'' = Some (Ref e)"
    using l s e by (simp_all add: own_prop_set_own)
  have up: "update_extendOptions (Ref c) superOptions h1 = (Inr (), ?h3)"
    using c l s e o2 by (intro update_extendOptions_closed) (simp_all add: lookup_own_prop)
  have "own_prop ?h3 c ''extendOptions'' = Some (Ref e)"
    using c e o2 by (simp add: extended_heap_own_other)
  then have e3: "lookup ?h3 c ''extendOptions'' = Ref e" by (rule lookup_own_prop)
  have c3: "c < length ?h3"
    using c extended_heap_length [of ?h2 l s e] by simp
  show ?thesis
    using up e3 c3 mg h4
    by (simp add: remerge_def merge_and_store_def get_prop_def set_prop_def)
qed

lemma register_name_closed:
  assumes "m < length h"
    and "truthy (lookup h m ''name'') \<longrightarrow> lookup h m ''components'' = Ref comps \<and> comps < length h"
  shows "register_name Ctor (Ref m) h =
         (Inr (Ref m),
          if truthy (lookup h m ''name'')
          then set_own h comps (to_key (lookup h m ''name'')) Ctor else h)"
  using assms by (simp add: register_name_def get_prop_def set_prop_def)

lemma resolve_up_to_date:
  "up_to_date depth (Ref c) h \<Longrightarrow>
   resolveConstructorOptions mrg depth (Ref c) h = (Inr (lookup h c ''options''), h)"
proof (induction depth arbitrary: c)
  case 0
  then show ?case by simp
next
  case (Suc depth)
  show ?case
  proof (cases "truthy (lookup h c ''super'')")
    case False
    then show ?thesis using Suc.prems by (simp add: get_prop_def)
  next
    case True
    then obtain p where p: "lookup h c ''super'' = Ref p"
      and up: "up_to_date depth (Ref p) h"
      and eq: "strict_eq (lookup h p ''options'') (lookup h c ''superOptions'')"
      using Suc.prems by (auto split: val.splits)
    have "resolveConstructorOptions mrg depth (Ref p) h = (Inr (lookup h p ''options''), h)"
      using up by (rule Suc.IH)
    then show ?thesis using Suc.prems True p eq by (simp add: get_prop_def)
  qed
qed

lemma up_to_date_Ref: "up_to_date depth Ctor h \<Longrightarrow> \<exists>c. Ctor = Ref c \<and> c < length h"
  by (cases depth; cases Ctor) simp_all

lemma extended_heap_nth_other:
  "a < length h \<Longrightarrow> a \<noteq> e \<Longrightarrow> extended_heap h l s e ! a = h ! a"
  by (simp add: extended_heap_def Let_def nth_append)

lemma resolve_stale_closed:
  assumes par: "c < length h" "truthy (lookup h c ''super'')"
    and res: "resolveConstructorOptions mrg depth (lookup h c ''super'') h = (Inr superOptions, h1)"
    and stale: "\<not> strict_eq superOptions (lookup h1 c ''superOptions'')"
    and flds: "class_fields h1 c l s e"
    and mg: "mrg superOptions (Ref e) Undefined
               (extended_heap (set_own h1 c ''superOptions'' superOptions) l s e) = (Inr (Ref m), h4)"
    and h4: "c < length h4" "m < length h4"
    and reg: "truthy (lookup (set_own h4 c ''options'' (Ref m)) m ''name'') \<longrightarrow>
              lookup (set_own h4 c ''options'' (Ref m)) m ''components'' = Ref comps \<and> comps < length h4"
  shows "resolveConstructorOptions mrg (Suc depth) (Ref c) h =
           (Inr (Ref m),
            if truthy (lookup (set_own h4 c ''options'' (Ref m)) m ''name'')
            then set_own (set_own h4 c ''options'' (Ref m)) comps
                   (to_key (lookup (set_own h4 c ''options'' (Ref m)) m ''name'')) (Ref c)
            else set_own h4 c ''options'' (Ref m))"
proof -
  let ?h5 = "set_own h4 c ''options'' (Ref m)"
  have c1: "c < length h1" using flds by (simp add: class_fields_def)
  have "resolveConstructorOptions mrg (Suc depth) (Ref c) h = remerge mrg (Ref c) superOptions h1"
    using par res c1 stale by (rule resolve_stale)
  also have "\<dots> = register_name (Ref c) (Ref m) ?h5"
    using flds mg h4 by (intro remerge_closed) (simp_all add: class_fields_def)
  also have "\<dots> = (Inr (Ref m), if truthy (lookup ?h5 m ''name'')
                      then set_own ?h5 comps (to_key (lookup ?h5 m ''name'')) (Ref c) else ?h5)"
    using h4 reg by (intro register_name_closed) simp_all
  finally show ?thesis .
qed

lemma up_to_date_no_parent:
  "c < length h \<Longrightarrow> \<not> truthy (lookup h c ''super'') \<Longrightarrow> up_to_date (Suc depth) (Ref c) h"
  by simp

lemma own_prop_in_forin: "own_prop h a k = Some v \<Longrightarrow> k \<in> set (forin_keys h (Ref a))"
proof -
  assume o: "own_prop h a k = Some v"
  then have a: "a < length h" and m: "map_of (props (h ! a)) k = Some v"
    by (simp_all add: own_prop_def split: if_splits)
  from m have "k \<in> fst ` set (props (h ! a))" by (metis map_of_eq_None_iff option.distinct(1))
  then have "k \<in> set (chain_keys h a)" using a by (subst chain_keys.simps) simp
  then show ?thesis by (simp add: forin_keys_def)
qed

lemma defaultStrat_keeps_child:
  assumes mg: "mergeOptions_defaultStrat parent (Ref e) vm h = (Inr (Ref m), h4)"
    and own: "own_prop h e k = Some v" and v: "v \<noteq> Undefined"
  shows "lookup h4 m k = v"
proof -
  let ?keys = "rev (remdups (rev (forin_keys h parent @ forin_keys h (Ref e))))"
  let ?f = "\<lambda>key. defaultStrat (read h parent key) (read h (Ref e) key)"
  let ?ob = "(new_object None)\<lparr>props := map (\<lambda>key. (key, ?f key)) ?keys\<rparr>"
  have k: "k \<in> set ?keys" using own_prop_in_forin [OF own] by simp
  then have ne: "?keys \<noteq> []" by auto
  have res: "m = length h" "h4 = h @ [?ob]"
    using mg ne by (auto simp: mergeOptions_defaultStrat_def Let_def alloc_def split: if_splits)
  have e: "e < length h" using own by (rule own_prop_length)
  have rd: "read h (Ref e) k = v"
    using e lookup_own_prop [OF own] by (simp add: read_def get_prop_def)
  have "map_of (props ?ob) k = Some (?f k)"
    using k by (simp add: map_of_map_restrict del: set_rev set_remdups set_append)
  then have "lookup h4 m k = ?f k"
    unfolding res by (subst lookup_no_proto) (simp_all add: new_object_def)
  then show ?thesis using rd v by (simp add: defaultStrat_def)
qed

section \<open>Facts about the initializer\<close>

lemma set_own_append_lower: "a < length h \<Longrightarrow> set_own (h @ xs) a k x = set_own h a k x @ xs"
  by (simp add: set_own_def list_update_append nth_append)

lemma set_own_top_eq:
  "n = length h0 \<Longrightarrow> set_own (h0 @ [ob]) n k v = h0 @ [ob\<lparr>props := AList.update k v (props ob)\<rparr>]"
  by (simp add: set_own_def)

lemma initInternalComponent_closed:
  assumes v: "v < length h"
    and ctor: "get_prop h (lookup h v ''constructor'') ''options'' = Inr (Ref co)" "co < length h"
    and o: "o' < length h"
    and pv: "lookup h o' ''_parentVnode'' = Ref pv" "pv < length h"
    and cp: "lookup h pv ''componentOptions'' = Ref cp" "cp < length h"
  shows "initInternalComponent (Ref v) (Ref o') h =
         (Inr (), set_own h v ''$options'' (Ref (length h)) @ [internal_options h co o' pv cp])"
proof -
  let ?h0 = "set_own h v ''$options'' (Ref (length h))"
  have rd: "lookup (?h0 @ [ob]) a k = lookup h a k" if "a < length h" "k \<noteq> ''$options''" for ob a k
    using that by (simp add: lookup_append lookup_set_own_other_key)
  show ?thesis
    using assms
    by (simp add: initInternalComponent_def seq_def getp_def setp_def assign_def ret_def
          object_create_def alloc_def new_object_def get_prop_def set_prop_def
          set_own_append_lower set_own_top_eq rd internal_options_def)
qed

lemma get_prop_Inr_Ref:
  "get_prop h v k = Inr (Ref a) \<Longrightarrow> \<exists>b. v = Ref b \<and> b < length h \<and> lookup h b k = Ref a"
  by (cases v) (simp_all add: get_prop_def split: if_splits)

lemma run_steps_events:
  "run_steps vm steps h = (r, evs, h') \<Longrightarrow>
   prefix evs (map (\<lambda>p. Ran vm (fst p)) steps) \<and>
   (r = Inr () \<longrightarrow> evs = map (\<lambda>p. Ran vm (fst p)) steps)"
proof (induction steps arbitrary: h r evs h')
  case Nil
  then show ?case by simp
next
  case (Cons p steps)
  obtain st f where p: "p = (st, f)" by (cases p)
  show ?case
  proof (cases "f h")
    case (Pair r1 h1)
    show ?thesis
    proof (cases r1)
      case (Inl e)
      then show ?thesis using Cons.prems p Pair by auto
    next
      case (Inr u)
      obtain r2 evs2 h2 where rest: "run_steps vm steps h1 = (r2, evs2, h2)"
        by (cases "run_steps vm steps h1") auto
      from Cons.IH [OF rest] Cons.prems p Pair Inr rest show ?thesis by auto
    qed
  qed
qed

lemma run_steps_Cons_isl:
  "f h = (r, h1) \<Longrightarrow>
   run_steps vm ((st, f) # rest) h =
     (if isl r then (r, [Ran vm st], h1)
      else (case run_steps vm rest h1 of (r', evs, h2) \<Rightarrow> (r', Ran vm st # evs, h2)))"
  by (cases r) auto

lemma init_sequence_names:
  "map (\<lambda>p. Ran vm (fst p)) (init_sequence env vm) = map (Ran vm) (lifecycle_order (production env))"
  by (simp add: init_sequence_def lifecycle_order_def)

lemma init_until_created_events:
  assumes "init_until_created env vm options n h = (r, evs, h')"
  shows "prefix evs (map (Ran vm) (lifecycle_order (production env))) \<and>
         (r = Inr () \<longrightarrow> evs = map (Ran vm) (lifecycle_order (production env)))"
proof (cases "seq (setp vm ''_uid'' (Num (int n))) (\<lambda>_.
           seq (setp vm ''_isVue'' (Bool True)) (\<lambda>_.
           init_options env vm options)) h")
  case (Pair r1 h1)
  show ?thesis
  proof (cases r1)
    case (Inl e)
    then show ?thesis using assms Pair by (auto simp: init_until_created_def)
  next
    case (Inr u)
    then have "run_steps vm (init_sequence env vm) h1 = (r, evs, h')"
      using assms Pair by (simp add: init_until_created_def)
    from run_steps_events [OF this] show ?thesis by (simp add: init_sequence_names)
  qed
qed

lemma init_mount_events:
  assumes "init_mount env vm h = (r, evs, h')"
  shows "evs = [] \<or> (\<exists>el. evs = [Ran vm (Mount el)])"
  using assms
  by (auto simp: init_mount_def split: prod.splits sum.splits if_splits)

lemma init_body_events:
  assumes "init_body env vm options n h = (r, evs, h')"
  shows "(\<exists>el. prefix evs (map (Ran vm) (lifecycle_order (production env) @ [Mount el]))) \<and>
         (r = Inr () \<longrightarrow> prefix (map (Ran vm) (lifecycle_order (production env))) evs)"
proof -
  obtain r1 evs1 h1 where u: "init_until_created env vm options n h = (r1, evs1, h1)"
    by (cases "init_until_created env vm options n h") auto
  note U = init_until_created_events [OF u]
  show ?thesis
  proof (cases r1)
    case (Inl e)
    then have "evs = evs1" "r = Inl e" using assms u by (simp_all add: init_body_def)
    then show ?thesis using U by (auto intro: prefix_order.trans)
  next
    case (Inr x)
    obtain r2 evs2 h2 where m: "init_mount env vm h1 = (r2, evs2, h2)"
      by (cases "init_mount env vm h1") auto
    have e: "evs = evs1 @ evs2" using assms u Inr m by (simp add: init_body_def)
    have full: "evs1 = map (Ran vm) (lifecycle_order (production env))" using U Inr by simp
    from init_mount_events [OF m] show ?thesis
    proof
      assume "evs2 = []"
      then show ?thesis using e full by auto
    next
      assume "\<exists>el. evs2 = [Ran vm (Mount el)]"
      then obtain el where "evs2 = [Ran vm (Mount el)]" by blast
      then have "evs = map (Ran vm) (lifecycle_order (production env) @ [Mount el])"
        using e full by simp
      then show ?thesis by (metis map_append prefix_order.refl prefixI)
    qed
  qed
qed

lemma uids_taken_Ran: "prefix evs (map (Ran vm) sts) \<Longrightarrow> uids_taken evs = []"
proof -
  assume "prefix evs (map (Ran vm) sts)"
  then obtain zs where "map (Ran vm) sts = evs @ zs" by (auto simp: prefix_def)
  then have "set evs \<subseteq> Ran vm ` set sts"
    by (metis Un_upper1 set_append set_map)
  then have "\<forall>ev\<in>set evs. (case ev of Uid vm n \<Rightarrow> [(vm, n)] | _ \<Rightarrow> []) = []" by auto
  then show ?thesis by (induction evs) (simp_all add: uids_taken_def)
qed

lemma uids_taken_append: "uids_taken (xs @ ys) = uids_taken xs @ uids_taken ys"
  by (simp add: uids_taken_def)

lemma init_uid:
  assumes "Vue_prototype_init env vm options s = (r, evs, s')"
  shows "uids_taken evs = [(vm, uid s)] \<and> uid s' = uid s + 1"
proof -
  obtain r1 evs1 h1 where b: "init_body env vm options (uid s) (heap s) = (r1, evs1, h1)"
    by (cases "init_body env vm options (uid s) (heap s)") auto
  from init_body_events [OF b] obtain el where
    "prefix evs1 (map (Ran vm) (lifecycle_order (production env) @ [Mount el]))" by blast
  then have "uids_taken evs1 = []" by (rule uids_taken_Ran)
  moreover have "evs = Uid vm (uid s) # evs1" "s' = s\<lparr>uid := uid s + 1, heap := h1\<rparr>"
    using assms b by (simp_all add: Vue_prototype_init_def Let_def)
  ultimately show ?thesis by (simp add: uids_taken_def)
qed

lemma init_stores_uid:
  assumes "v < length (heap s)"
  shows "Vue_prototype_init env (Ref v) options s =
           (case init_after_uid env (Ref v) options
                   (set_own (heap s) v ''_uid'' (Num (int (uid s)))) of
              (r, evs, h') \<Rightarrow> (r, Uid (Ref v) (uid s) # evs, \<lparr>uid = uid s + 1, heap = h'\<rparr>))"
  using assms
  by (cases s)
     (auto simp: Vue_prototype_init_def init_body_def init_until_created_def init_after_uid_def
        Let_def seq_def setp_def set_prop_def split: prod.splits sum.splits)

lemma init_not_object:
  assumes "\<forall>v. vm = Ref v \<longrightarrow> \<not> v < length (heap s)"
  shows "Vue_prototype_init env vm options s =
           (Inl TypeError, [Uid vm (uid s)], \<lparr>uid = uid s + 1, heap = heap s\<rparr>)"
  using assms
  by (cases s; cases vm)
     (auto simp: Vue_prototype_init_def init_body_def init_until_created_def
        Let_def seq_def setp_def set_prop_def)

lemma undisturbed_final:
  "undisturbed env reqs s \<Longrightarrow>
   length (heap s) \<le> length (heap (snd (construct_all env reqs s))) \<and>
   (\<forall>a<length (heap s). own_prop (heap s) a ''_uid'' \<noteq> None \<longrightarrow>
       own_prop (heap (snd (construct_all env reqs s))) a ''_uid'' = own_prop (heap s) a ''_uid'') \<and>
   (\<forall>i<length reqs. \<exists>v. fst (reqs ! i) = Ref v \<and>
       own_prop (heap (snd (construct_all env reqs s))) v ''_uid'' = Some (Num (int (uid s + i))))"
proof (induction reqs arbitrary: s)
  case Nil
  then show ?case by simp
next
  case (Cons req reqs)
  obtain vm options where req: "req = (vm, options)" by (cases req)
  from Cons.prems req obtain v where vm: "vm = Ref v"
    by (cases vm) simp_all
  let ?h0 = "set_own (heap s) v ''_uid'' (Num (int (uid s)))"
  let ?h' = "snd (snd (init_after_uid env vm options ?h0))"
  let ?s1 = "\<lparr>uid = uid s + 1, heap = ?h'\<rparr>"
  from Cons.prems req vm have v: "v < length (heap s)" and fresh: "own_prop (heap s) v ''_uid'' = None"
    and len: "length ?h0 \<le> length ?h'"
    and keep: "\<forall>a<length ?h0. own_prop ?h' a ''_uid'' = own_prop ?h0 a ''_uid''"
    and rest: "undisturbed env reqs ?s1"
    by (simp_all add: Let_def)
  have run: "Vue_prototype_init env vm options s =
        (fst (init_after_uid env vm options ?h0),
         Uid vm (uid s) # fst (snd (init_after_uid env vm options ?h0)), ?s1)"
    unfolding vm using init_stores_uid [OF v, of env options]
    by (simp add: case_prod_beta)
  have fin: "snd (construct_all env (req # reqs) s) = snd (construct_all env reqs ?s1)"
    by (simp add: req run case_prod_beta)
  note IH = Cons.IH [OF rest]
  let ?hf = "heap (snd (construct_all env reqs ?s1))"
  from IH have l1: "length ?h' \<le> length ?hf" by simp
  from IH have k1: "\<forall>a<length ?h'. own_prop ?h' a ''_uid'' \<noteq> None \<longrightarrow>
       own_prop ?hf a ''_uid'' = own_prop ?h' a ''_uid''" by simp
  from IH have i1: "\<forall>i<length reqs. \<exists>w. fst (reqs ! i) = Ref w \<and>
       own_prop ?hf w ''_uid'' = Some (Num (int (uid s + 1 + i)))" by simp
  have st: "own_prop ?h0 v ''_uid'' = Some (Num (int (uid s)))"
    using v by (simp add: own_prop_set_own)
  have A: "length (heap s) \<le> length ?hf" using len l1 by simp
  have B: "own_prop ?hf a ''_uid'' = own_prop (heap s) a ''_uid''"
    if "a < length (heap s)" "own_prop (heap s) a ''_uid'' \<noteq> None" for a
  proof -
    have "a \<noteq> v" using that fresh by auto
    then have "own_prop ?h0 a ''_uid'' = own_prop (heap s) a ''_uid''"
      by (simp add: own_prop_set_own)
    moreover have "own_prop ?h' a ''_uid'' = own_prop ?h0 a ''_uid''" using keep that by simp
    moreover have "a < length ?h'" using that len by simp
    ultimately show ?thesis using k1 that by simp
  qed
  have C0: "own_prop ?hf v ''_uid'' = Some (Num (int (uid s)))"
  proof -
    have "own_prop ?h' v ''_uid'' = Some (Num (int (uid s)))" using keep v st by simp
    moreover have "v < length ?h'" using v len by simp
    ultimately show ?thesis using k1 by simp
  qed
  have C: "\<exists>w. fst ((req # reqs) ! i) = Ref w \<and>
       own_prop ?hf w ''_uid'' = Some (Num (int (uid s + i)))" if "i < length (req # reqs)" for i
  proof (cases i)
    case 0
    then show ?thesis using C0 req vm by simp
  next
    case (Suc j)
    then show ?thesis using i1 that by simp
  qed
  show ?case unfolding fin using A B C by blast
qed


lemma undisturbed_values:
  assumes "undisturbed env reqs s"
  shows "map (\<lambda>req. get_prop (heap (snd (construct_all env reqs s))) (fst req) ''_uid'') reqs =
         map (\<lambda>n. Inr (Num (int n))) [uid s ..< uid s + length reqs]"
proof (rule nth_equalityI)
  show "length (map (\<lambda>req. get_prop (heap (snd (construct_all env reqs s))) (fst req) ''_uid'') reqs) =
        length (map (\<lambda>n. Inr (Num (int n))) [uid s ..< uid s + length reqs])" by simp
next
  fix i
  assume "i < length (map (\<lambda>req. get_prop (heap (snd (construct_all env reqs s))) (fst req) ''_uid'') reqs)"
  then have i: "i < length reqs" by simp
  from undisturbed_final [OF assms] i obtain v where
    v: "fst (reqs ! i) = Ref v"
    and o: "own_prop (heap (snd (construct_all env reqs s))) v ''_uid'' = Some (Num (int (uid s + i)))"
    by blast
  have "get_prop (heap (snd (construct_all env reqs s))) (Ref v) ''_uid'' = Inr (Num (int (uid s + i)))"
    using lookup_own_prop [OF o] own_prop_length [OF o] by (simp add: get_prop_def)
  then show "map (\<lambda>req. get_prop (heap (snd (construct_all env reqs s))) (fst req) ''_uid'') reqs ! i =
        map (\<lambda>n. Inr (Num (int n))) [uid s ..< uid s + length reqs] ! i"
    using i v by simp
qed

lemma counter_steps:
  "uids_taken (fst (construct_all env reqs s)) = zip (map fst reqs) [uid s ..< uid s + length reqs]
   \<and> uid (snd (construct_all env reqs s)) = uid s + length reqs"
proof (induction reqs arbitrary: s)
  case Nil
  show ?case by (simp add: uids_taken_def)
next
  case (Cons req reqs)
  obtain vm options where req: "req = (vm, options)" by (cases req)
  obtain r evs s1 where i: "Vue_prototype_init env vm options s = (r, evs, s1)"
    by (cases "Vue_prototype_init env vm options s") auto
  obtain evs' s2 where c: "construct_all env reqs s1 = (evs', s2)"
    by (cases "construct_all env reqs s1") auto
  from init_uid [OF i] have u: "uids_taken evs = [(vm, uid s)]" "uid s1 = Suc (uid s)" by simp_all
  from Cons.IH [of s1] c have
    ih: "uids_taken evs' = zip (map fst reqs) [uid s1 ..< uid s1 + length reqs]"
        "uid s2 = uid s1 + length reqs" by simp_all
  have "[uid s ..< uid s + length (req # reqs)] = uid s # [Suc (uid s) ..< Suc (uid s) + length reqs]"
    by (subst upt_rec) simp
  then show ?case using req i c u ih by (simp add: uids_taken_append)
qed

lemma initMixin_installs:
  assumes "v < length h" and "lookup h v ''prototype'' = Ref p" and "p < length h"
  shows "initMixin (Ref v) h =
         (Inr (), set_own (h @ [\<lparr>proto = None, props = [], callable = Some Code_init\<rparr>]) p
                    ''_init'' (Ref (length h)))"
  using assms
  by (simp add: initMixin_def seq_def getp_def setp_def get_prop_def set_prop_def alloc_def)

lemma new_Vue_runs_init:
  "new_Vue idle_collaborators (Ref 0) (Ref 5) (initial_state vue_heap) =
     (case Vue_prototype_init idle_collaborators (Ref 12) (Ref 5)
             (initial_state (vue_heap @ [new_object (Some 1)])) of
        (r, evs, s') \<Rightarrow> (r, evs, s'))
   \<and> fst (snd (new_Vue idle_collaborators (Ref 0) (Ref 5) (initial_state vue_heap))) =
     [Uid (Ref 12) 0, Ran (Ref 12) InitProxy, Ran (Ref 12) SetSelf, Ran (Ref 12) InitLifecycle,
      Ran (Ref 12) InitEvents, Ran (Ref 12) InitRender, Ran (Ref 12) (CallHook ''beforeCreate''),
      Ran (Ref 12) InitInjections, Ran (Ref 12) InitState, Ran (Ref 12) InitProvide,
      Ran (Ref 12) (CallHook ''created''), Ran (Ref 12) (Mount (Str ''#app''))]"
  by code_simp

section \<open>The order of initialization\<close>

text \<open>
  C1. A call of \<^verbatim>\<open>_init\<close> runs the subsystem initializers and hooks in one fixed
  order, each on the heap the one before it left: after the statements that set
  \<^verbatim>\<open>_uid\<close>, \<^verbatim>\<open>_isVue\<close> and \<^verbatim>\<open>$options\<close> come the proxy (\<^verbatim>\<open>initProxy\<close>, or the
  assignment of \<^verbatim>\<open>_renderProxy\<close> in a production build), the assignment of \<^verbatim>\<open>_self\<close>,
  \<^verbatim>\<open>initLifecycle\<close>, \<^verbatim>\<open>initEvents\<close>, \<^verbatim>\<open>initRender\<close>, the \<^verbatim>\<open>beforeCreate\<close> hook,
  \<^verbatim>\<open>initInjections\<close>, \<^verbatim>\<open>initState\<close>, \<^verbatim>\<open>initProvide\<close> and the \<^verbatim>\<open>created\<close> hook.
  The first of them to raise ends the call with its exception and its heap; when none
  raises, the mount test runs on the heap the \<^verbatim>\<open>created\<close> hook left. So the
  \<^verbatim>\<open>beforeCreate\<close> hook is called on a heap that \<^verbatim>\<open>initState\<close> has not touched
  (\<open>h5\<close>, while \<^verbatim>\<open>initState\<close> is called on \<open>h7\<close>), and the \<^verbatim>\<open>created\<close> hook on the
  heap that injections, state and provide have produced in that order (\<open>h9\<close>).
\<close>

theorem init_order:
  assumes a0: "seq (setp vm ''_uid'' (Num (int (uid s)))) (\<lambda>_.
               seq (setp vm ''_isVue'' (Bool True)) (\<lambda>_.
               init_options env vm options)) (heap s) = (r0, h0)"
    and a1: "(if production env then setp vm ''_renderProxy'' vm else initProxy env vm) h0 = (r1, h1)"
    and a2: "setp vm ''_self'' vm h1 = (r2, h2)"
    and a3: "initLifecycle env vm h2 = (r3, h3)"
    and a4: "initEvents env vm h3 = (r4, h4)"
    and a5: "initRender env vm h4 = (r5, h5)"
    and a6: "callHook env vm ''beforeCreate'' h5 = (r6, h6)"
    and a7: "initInjections env vm h6 = (r7, h7)"
    and a8: "initState env vm h7 = (r8, h8)"
    and a9: "initProvide env vm h8 = (r9, h9)"
    and a10: "callHook env vm ''created'' h9 = (r10, h10)"
  shows "Vue_prototype_init env vm options s =
     (if isl r0 then stopped s vm (production env) 0 r0 h0
      else if isl r1 then stopped s vm (production env) 1 r1 h1
      else if isl r2 then stopped s vm (production env) 2 r2 h2
      else if isl r3 then stopped s vm (production env) 3 r3 h3
      else if isl r4 then stopped s vm (production env) 4 r4 h4
      else if isl r5 then stopped s vm (production env) 5 r5 h5
      else if isl r6 then stopped s vm (production env) 6 r6 h6
      else if isl r7 then stopped s vm (production env) 7 r7 h7
      else if isl r8 then stopped s vm (production env) 8 r8 h8
      else if isl r9 then stopped s vm (production env) 9 r9 h9
      else if isl r10 then stopped s vm (production env) 10 r10 h10
      else (case init_mount env vm h10 of
              (r, evs, h11) \<Rightarrow>
                (r, Uid vm (uid s) # map (Ran vm) (lifecycle_order (production env)) @ evs,
                 \<lparr>uid = uid s + 1, heap = h11\<rparr>)))"
proof -
  let ?P = "if production env then SetRenderProxy else InitProxy"
  note c = run_steps_Cons_isl
  have s10: "run_steps vm [(CallHook ''created'', callHook env vm ''created'')] h9 =
      (if isl r10 then (r10, [Ran vm (CallHook ''created'')], h10)
       else (Inr (), [Ran vm (CallHook ''created'')], h10))"
    using a10 by (cases r10) auto
  have a1': "(if \<not> production env then initProxy env vm else setp vm ''_renderProxy'' vm) h0 = (r1, h1)"
    using a1 by (simp split: if_splits)
  have first: "init_sequence env vm =
      (?P, if \<not> production env then initProxy env vm else setp vm ''_renderProxy'' vm) #
      [(SetSelf, setp vm ''_self'' vm), (InitLifecycle, initLifecycle env vm),
       (InitEvents, initEvents env vm), (InitRender, initRender env vm),
       (CallHook ''beforeCreate'', callHook env vm ''beforeCreate''),
       (InitInjections, initInjections env vm), (InitState, initState env vm),
       (InitProvide, initProvide env vm), (CallHook ''created'', callHook env vm ''created'')]"
    by (simp add: init_sequence_def)
  have steps: "run_steps vm (init_sequence env vm) h0 =
     (if isl r1 then (r1, map (Ran vm) (take 1 (lifecycle_order (production env))), h1)
      else if isl r2 then (r2, map (Ran vm) (take 2 (lifecycle_order (production env))), h2)
      else if isl r3 then (r3, map (Ran vm) (take 3 (lifecycle_order (production env))), h3)
      else if isl r4 then (r4, map (Ran vm) (take 4 (lifecycle_order (production env))), h4)
      else if isl r5 then (r5, map (Ran vm) (take 5 (lifecycle_order (production env))), h5)
      else if isl r6 then (r6, map (Ran vm) (take 6 (lifecycle_order (production env))), h6)
      else if isl r7 then (r7, map (Ran vm) (take 7 (lifecycle_order (production env))), h7)
      else if isl r8 then (r8, map (Ran vm) (take 8 (lifecycle_order (production env))), h8)
      else if isl r9 then (r9, map (Ran vm) (take 9 (lifecycle_order (production env))), h9)
      else if isl r10 then (r10, map (Ran vm) (take 10 (lifecycle_order (production env))), h10)
      else (Inr (), map (Ran vm) (lifecycle_order (production env)), h10))"
    unfolding first
    by (simp add:
          c [where f = "if \<not> production env then initProxy env vm else setp vm ''_renderProxy'' vm"
               and h = h0, OF a1']
          c [where f = "setp vm ''_self'' vm" and h = h1, OF a2]
          c [where f = "initLifecycle env vm" and h = h2, OF a3]
          c [where f = "initEvents env vm" and h = h3, OF a4]
          c [where f = "initRender env vm" and h = h4, OF a5]
          c [where f = "callHook env vm ''beforeCreate''" and h = h5, OF a6]
          c [where f = "initInjections env vm" and h = h6, OF a7]
          c [where f = "initState env vm" and h = h7, OF a8]
          c [where f = "initProvide env vm" and h = h8, OF a9]
          s10 lifecycle_order_def del: run_steps.simps)
  have fin: "Vue_prototype_init env vm options s =
        (case init_until_created env vm options (uid s) (heap s) of
           (r, evs, h2) \<Rightarrow>
             if isl r then (r, Uid vm (uid s) # evs, \<lparr>uid = uid s + 1, heap = h2\<rparr>)
             else (case init_mount env vm h2 of
                     (r', evs', h3) \<Rightarrow>
                       (r', Uid vm (uid s) # evs @ evs', \<lparr>uid = uid s + 1, heap = h3\<rparr>)))"
    by (cases s)
       (auto simp: Vue_prototype_init_def init_body_def Let_def split: prod.splits sum.splits)
  have unt: "init_until_created env vm options (uid s) (heap s) =
        (if isl r0 then (r0, [], h0) else run_steps vm (init_sequence env vm) h0)"
    using a0 by (cases r0) (simp_all add: init_until_created_def)
  show ?thesis
    unfolding fin unt steps stopped_def
    by (simp add: lifecycle_order_def)
qed


theorem init_order_witness:
  "props (heap (snd (snd (Vue_prototype_init recording_collaborators (Ref 4) (Ref 5)
                            (initial_state vue_heap)))) ! 4) =
     [(''_uid'', Num 0), (''_isVue'', Bool True), (''$options'', Ref 12),
      (''initProxy'', Bool True), (''_self'', Ref 4), (''initLifecycle'', Bool True),
      (''initEvents'', Bool True), (''initRender'', Bool True), (''beforeCreate'', Undefined),
      (''initInjections'', Bool True), (''initState'', Bool True), (''initProvide'', Bool True),
      (''created'', Bool True), (''$mount'', Str ''#app'')]
   \<and> fst (snd (Vue_prototype_init recording_collaborators (Ref 4) (Ref 5) (initial_state vue_heap))) =
     Uid (Ref 4) 0 # map (Ran (Ref 4)) (lifecycle_order False) @ [Ran (Ref 4) (Mount (Str ''#app''))]"
proof -
  let ?e = recording_collaborators
  let ?vm = "Ref 4"
  let ?s = "initial_state vue_heap"
  let ?f0 = "seq (setp ?vm ''_uid'' (Num (int (uid ?s)))) (\<lambda>_.
               seq (setp ?vm ''_isVue'' (Bool True)) (\<lambda>_.
               init_options ?e ?vm (Ref 5)))"
  let ?h0 = "snd (?f0 (heap ?s))"
  let ?f1 = "if production ?e then setp ?vm ''_renderProxy'' ?vm else initProxy ?e ?vm"
  let ?h1 = "snd (?f1 ?h0)"
  let ?h2 = "snd (setp ?vm ''_self'' ?vm ?h1)"
  let ?h3 = "snd (initLifecycle ?e ?vm ?h2)"
  let ?h4 = "snd (initEvents ?e ?vm ?h3)"
  let ?h5 = "snd (initRender ?e ?vm ?h4)"
  let ?h6 = "snd (callHook ?e ?vm ''beforeCreate'' ?h5)"
  let ?h7 = "snd (initInjections ?e ?vm ?h6)"
  let ?h8 = "snd (initState ?e ?vm ?h7)"
  let ?h9 = "snd (initProvide ?e ?vm ?h8)"
  let ?h10 = "snd (callHook ?e ?vm ''created'' ?h9)"
  have a0: "?f0 (heap ?s) = (fst (?f0 (heap ?s)), ?h0)" by simp
  have a1: "?f1 ?h0 = (fst (?f1 ?h0), ?h1)" by simp
  have a2: "setp ?vm ''_self'' ?vm ?h1 = (fst (setp ?vm ''_self'' ?vm ?h1), ?h2)" by simp
  have a3: "initLifecycle ?e ?vm ?h2 = (fst (initLifecycle ?e ?vm ?h2), ?h3)" by simp
  have a4: "initEvents ?e ?vm ?h3 = (fst (initEvents ?e ?vm ?h3), ?h4)" by simp
  have a5: "initRender ?e ?vm ?h4 = (fst (initRender ?e ?vm ?h4), ?h5)" by simp
  have a6: "callHook ?e ?vm ''beforeCreate'' ?h5 = (fst (callHook ?e ?vm ''beforeCreate'' ?h5), ?h6)"
    by simp
  have a7: "initInjections ?e ?vm ?h6 = (fst (initInjections ?e ?vm ?h6), ?h7)" by simp
  have a8: "initState ?e ?vm ?h7 = (fst (initState ?e ?vm ?h7), ?h8)" by simp
  have a9: "initProvide ?e ?vm ?h8 = (fst (initProvide ?e ?vm ?h8), ?h9)" by simp
  have a10: "callHook ?e ?vm ''created'' ?h9 = (fst (callHook ?e ?vm ''created'' ?h9), ?h10)" by simp
  have n: "\<not> isl (fst (?f0 (heap ?s)))" "\<not> isl (fst (?f1 ?h0))"
    "\<not> isl (fst (setp ?vm ''_self'' ?vm ?h1))" "\<not> isl (fst (initLifecycle ?e ?vm ?h2))"
    "\<not> isl (fst (initEvents ?e ?vm ?h3))" "\<not> isl (fst (initRender ?e ?vm ?h4))"
    "\<not> isl (fst (callHook ?e ?vm ''beforeCreate'' ?h5))" "\<not> isl (fst (initInjections ?e ?vm ?h6))"
    "\<not> isl (fst (initState ?e ?vm ?h7))" "\<not> isl (fst (initProvide ?e ?vm ?h8))"
    "\<not> isl (fst (callHook ?e ?vm ''created'' ?h9))"
    by code_simp+
  note T = init_order [OF a0 a1 a2 a3 a4 a5 a6 a7 a8 a9 a10]
  have E: "Vue_prototype_init ?e ?vm (Ref 5) ?s =
      (case init_mount ?e ?vm ?h10 of
         (r, evs, h11) \<Rightarrow>
           (r, Uid ?vm (uid ?s) # map (Ran ?vm) (lifecycle_order (production ?e)) @ evs,
            \<lparr>uid = uid ?s + 1, heap = h11\<rparr>))"
    by (rule T [unfolded if_not_P [OF n(1)] if_not_P [OF n(2)] if_not_P [OF n(3)] if_not_P [OF n(4)]
          if_not_P [OF n(5)] if_not_P [OF n(6)] if_not_P [OF n(7)] if_not_P [OF n(8)]
          if_not_P [OF n(9)] if_not_P [OF n(10)] if_not_P [OF n(11)]])
  show ?thesis
    unfolding E by code_simp
qed

section \<open>The instance counter\<close>

text \<open>
  C2. The first statement of \<^verbatim>\<open>_init\<close> stores the value of the counter as the
  \<^verbatim>\<open>_uid\<close> of the instance and adds one to the counter; the rest of the call runs on
  the heap with that store. After a sequence of \<open>N\<close> constructions on fresh
  instances, whose later statements leave every \<^verbatim>\<open>_uid\<close> alone, the instances hold,
  in the order of construction, the \<open>N\<close> consecutive numbers from the counter's
  value at the start: \<open>0, 1, ..., N - 1\<close> from the state in which the module is
  loaded, where the counter is 0. Every call adds exactly one to the counter, whether
  it returns or raises; a call whose receiver is no object takes a number and raises
  without storing it anywhere.
\<close>

theorem uids_consecutive:
  "(v < length (heap s) \<longrightarrow>
      Vue_prototype_init env (Ref v) options s =
        (case init_after_uid env (Ref v) options
                (set_own (heap s) v ''_uid'' (Num (int (uid s)))) of
           (r, evs, h') \<Rightarrow> (r, Uid (Ref v) (uid s) # evs, \<lparr>uid = uid s + 1, heap = h'\<rparr>))
      \<and> get_prop (set_own (heap s) v ''_uid'' (Num (int (uid s)))) (Ref v) ''_uid''
          = Inr (Num (int (uid s))))
   \<and> (undisturbed env reqs s \<longrightarrow>
        map (\<lambda>req. get_prop (heap (snd (construct_all env reqs s))) (fst req) ''_uid'') reqs =
        map (\<lambda>n. Inr (Num (int n))) [uid s ..< uid s + length reqs])
   \<and> (undisturbed env reqs (initial_state h) \<longrightarrow>
        map (\<lambda>req. get_prop (heap (snd (construct_all env reqs (initial_state h)))) (fst req) ''_uid'') reqs =
        map (\<lambda>n. Inr (Num (int n))) [0 ..< length reqs])
   \<and> ((case vm of Ref a \<Rightarrow> \<not> a < length (heap s) | _ \<Rightarrow> True) \<longrightarrow>
        Vue_prototype_init env vm options' s =
          (Inl TypeError, [Uid vm (uid s)], \<lparr>uid = uid s + 1, heap = heap s\<rparr>))
   \<and> uid (initial_state h) = 0
   \<and> uid (snd (construct_all env reqs s)) = uid s + length reqs
   \<and> uids_taken (fst (construct_all env reqs s)) = zip (map fst reqs) [uid s ..< uid s + length reqs]"
proof -
  have z: "uid (initial_state h) = 0" by (simp add: initial_state_def)
  have a: "get_prop (set_own (heap s) v ''_uid'' (Num (int (uid s)))) (Ref v) ''_uid''
          = Inr (Num (int (uid s)))" if "v < length (heap s)"
    using that by (simp add: get_prop_def lookup_set_own_same)
  have b: "map (\<lambda>req. get_prop (heap (snd (construct_all env reqs (initial_state h)))) (fst req) ''_uid'') reqs =
        map (\<lambda>n. Inr (Num (int n))) [0 ..< length reqs]"
    if "undisturbed env reqs (initial_state h)"
    using undisturbed_values [OF that] unfolding z by simp
  note c = counter_steps [of env reqs s]
  have d: "Vue_prototype_init env vm options' s =
          (Inl TypeError, [Uid vm (uid s)], \<lparr>uid = uid s + 1, heap = heap s\<rparr>)"
    if "case vm of Ref a \<Rightarrow> \<not> a < length (heap s) | _ \<Rightarrow> True"
    using that by (intro init_not_object) auto
  show ?thesis
    apply (intro conjI impI)
           apply (erule init_stores_uid)
          apply (erule a)
         apply (erule undisturbed_values)
        apply (erule b)
       apply (erule d)
      apply (rule z)
     apply (rule c [THEN conjunct2])
    apply (rule c [THEN conjunct1])
    done
qed

theorem uids_consecutive_witness:
  "map (\<lambda>req. get_prop (heap (snd (construct_all recording_collaborators
                  [(Ref 4, Ref 5), (Ref 6, Ref 7), (Ref 10, Undefined)] (initial_state vue_heap))))
                (fst req) ''_uid'')
       [(Ref 4, Ref 5), (Ref 6, Ref 7), (Ref 10, Undefined)]
     = [Inr (Num 0), Inr (Num 1), Inr (Num 2)]
   \<and> uid (snd (construct_all recording_collaborators
                  [(Ref 4, Ref 5), (Ref 6, Ref 7), (Ref 10, Undefined)] (initial_state vue_heap))) = 3
   \<and> get_prop (heap (snd (snd (Vue_prototype_init recording_collaborators (Ref 4) (Ref 5)
                  (initial_state vue_heap))))) (Ref 4) ''_uid'' = Inr (Num 0)
   \<and> Vue_prototype_init recording_collaborators Undefined (Ref 5) (initial_state vue_heap) =
       (Inl TypeError, [Uid Undefined 0], \<lparr>uid = 1, heap = vue_heap\<rparr>)"
proof -
  let ?e = recording_collaborators
  let ?reqs = "[(Ref 4, Ref 5), (Ref 6, Ref 7), (Ref 10, Undefined)]"
  let ?s = "initial_state vue_heap"
  note T = uids_consecutive [of 4 ?s ?e "Ref 5" ?reqs vue_heap Undefined "Ref 5"]
  have v: "4 < length (heap ?s)" by code_simp
  have u: "undisturbed ?e ?reqs ?s" by code_simp
  have n: "case Undefined of Ref a \<Rightarrow> \<not> a < length (heap ?s) | _ \<Rightarrow> True" by simp
  have z: "uid ?s = 0" using T by (elim conjE)
  have l: "[0 ..< length ?reqs] = [0, 1, 2]" by (simp add: upt_rec)
  have hs: "heap ?s = vue_heap" by (simp add: initial_state_def)
  from T have a: "Vue_prototype_init ?e (Ref 4) (Ref 5) ?s =
        (case init_after_uid ?e (Ref 4) (Ref 5) (set_own (heap ?s) 4 ''_uid'' (Num (int (uid ?s)))) of
           (r, evs, h') \<Rightarrow> (r, Uid (Ref 4) (uid ?s) # evs, \<lparr>uid = uid ?s + 1, heap = h'\<rparr>))"
    using v by (elim conjE) simp
  from T have b: "map (\<lambda>req. get_prop (heap (snd (construct_all ?e ?reqs ?s))) (fst req) ''_uid'') ?reqs =
        map (\<lambda>n. Inr (Num (int n))) [0 ..< length ?reqs]"
    using u by (elim conjE) simp
  from T have c: "uid (snd (construct_all ?e ?reqs ?s)) = uid ?s + length ?reqs"
    by (elim conjE)
  from T have d: "Vue_prototype_init ?e Undefined (Ref 5) ?s =
          (Inl TypeError, [Uid Undefined (uid ?s)], \<lparr>uid = uid ?s + 1, heap = heap ?s\<rparr>)"
    using n by (elim conjE) simp
  have g: "get_prop (heap (snd (snd (case init_after_uid ?e (Ref 4) (Ref 5)
                (set_own (heap ?s) 4 ''_uid'' (Num (int (uid ?s)))) of
           (r, evs, h') \<Rightarrow> (r, Uid (Ref 4) (uid ?s) # evs, \<lparr>uid = uid ?s + 1, heap = h'\<rparr>)))))
          (Ref 4) ''_uid'' = Inr (Num 0)"
    by code_simp
  show ?thesis
    apply (intro conjI)
       apply (subst b, subst l, simp)
      apply (subst c, subst z, simp)
     apply (subst a, rule g)
    apply (subst d, simp add: z hs)
    done
qed

section \<open>The internal component path\<close>

text \<open>
  C4. \<^verbatim>\<open>initInternalComponent\<close>, called on an instance with options whose
  \<^verbatim>\<open>_parentVnode\<close> is a virtual node with component options, returns and leaves
  \<^verbatim>\<open>vm.$options\<close> a new object whose prototype is the object that
  \<^verbatim>\<open>vm.constructor.options\<close> is, before and after the call. Its own \<^verbatim>\<open>parent\<close> and
  \<^verbatim>\<open>_parentVnode\<close> are those of the supplied options; \<^verbatim>\<open>propsData\<close>,
  \<^verbatim>\<open>_parentListeners\<close>, \<^verbatim>\<open>_renderChildren\<close> and \<^verbatim>\<open>_componentTag\<close> are
  \<^verbatim>\<open>propsData\<close>, \<^verbatim>\<open>listeners\<close>, \<^verbatim>\<open>children\<close> and \<^verbatim>\<open>tag\<close> of the virtual node's
  component options; \<^verbatim>\<open>render\<close> and \<^verbatim>\<open>staticRenderFns\<close> are set when the supplied
  \<^verbatim>\<open>render\<close> is truthy. Every other key is not an own property and reads as it
  reads on the prototype.
\<close>

theorem initInternalComponent_options:
  assumes v: "v < length h"
    and ctor: "get_prop h (lookup h v ''constructor'') ''options'' = Inr (Ref co)" "co < length h"
    and o: "o' < length h"
    and pv: "lookup h o' ''_parentVnode'' = Ref pv" "pv < length h"
    and cp: "lookup h pv ''componentOptions'' = Ref cp" "cp < length h"
  shows "let n = length h; h' = snd (initInternalComponent (Ref v) (Ref o') h)
         in fst (initInternalComponent (Ref v) (Ref o') h) = Inr ()
          \<and> lookup h' v ''$options'' = Ref n
          \<and> proto (h' ! n) = Some co
          \<and> get_prop h' (lookup h' v ''constructor'') ''options'' = Inr (Ref co)
          \<and> own_prop h' n ''parent'' = Some (lookup h o' ''parent'')
          \<and> own_prop h' n ''_parentVnode'' = Some (lookup h o' ''_parentVnode'')
          \<and> own_prop h' n ''propsData'' = Some (lookup h cp ''propsData'')
          \<and> own_prop h' n ''_parentListeners'' = Some (lookup h cp ''listeners'')
          \<and> own_prop h' n ''_renderChildren'' = Some (lookup h cp ''children'')
          \<and> own_prop h' n ''_componentTag'' = Some (lookup h cp ''tag'')
          \<and> (truthy (lookup h o' ''render'') \<longrightarrow>
                own_prop h' n ''render'' = Some (lookup h o' ''render'') \<and>
                own_prop h' n ''staticRenderFns'' = Some (lookup h o' ''staticRenderFns''))
          \<and> (\<forall>k. k \<notin> {''parent'', ''_parentVnode'', ''propsData'', ''_parentListeners'',
                        ''_renderChildren'', ''_componentTag''} \<and>
                   (truthy (lookup h o' ''render'') \<longrightarrow> k \<notin> {''render'', ''staticRenderFns''})
                   \<longrightarrow> own_prop h' n k = None \<and> lookup h' n k = lookup h' co k)"
proof -
  let ?n = "length h"
  let ?h0 = "set_own h v ''$options'' (Ref ?n)"
  let ?ob = "internal_options h co o' pv cp"
  let ?h' = "?h0 @ [?ob]"
  have cl: "initInternalComponent (Ref v) (Ref o') h = (Inr (), ?h')"
    using assms by (rule initInternalComponent_closed)
  have top: "?h' ! ?n = ?ob" by (simp add: nth_append)
  have own: "own_prop ?h' ?n k = map_of (props ?ob) k" for k
    by (simp add: own_prop_def nth_append)
  have rd: "lookup ?h' a k = lookup h a k" if "a < length h" "k \<noteq> ''$options''" for a k
    using that by (simp add: lookup_append lookup_set_own_other_key)
  have A: "lookup ?h' v ''$options'' = Ref ?n"
    using v by (simp add: lookup_append lookup_set_own_same)
  have B: "proto (?h' ! ?n) = Some co"
    by (subst top) (simp add: internal_options_def)
  obtain b where b: "lookup h v ''constructor'' = Ref b" "b < length h" "lookup h b ''options'' = Ref co"
    using get_prop_Inr_Ref [OF ctor(1)] by blast
  have C: "get_prop ?h' (lookup ?h' v ''constructor'') ''options'' = Inr (Ref co)"
    using v b by (simp add: rd get_prop_def)
  have F: "own_prop ?h' ?n k = None \<and> lookup ?h' ?n k = lookup ?h' co k"
    if "k \<notin> {''parent'', ''_parentVnode'', ''propsData'', ''_parentListeners'',
                        ''_renderChildren'', ''_componentTag''}"
       "truthy (lookup h o' ''render'') \<longrightarrow> k \<notin> {''render'', ''staticRenderFns''}" for k
  proof -
    have none: "map_of (props ?ob) k = None"
      using that by (simp add: internal_options_def)
    have "lookup ?h' ?n k = lookup ?h' co k"
      using none ctor(2) B by (subst lookup.simps) (simp add: top)
    then show ?thesis using none by (simp add: own)
  qed
  have P: "own_prop ?h' ?n ''parent'' = Some (lookup h o' ''parent'')"
    "own_prop ?h' ?n ''_parentVnode'' = Some (lookup h o' ''_parentVnode'')"
    "own_prop ?h' ?n ''propsData'' = Some (lookup h cp ''propsData'')"
    "own_prop ?h' ?n ''_parentListeners'' = Some (lookup h cp ''listeners'')"
    "own_prop ?h' ?n ''_renderChildren'' = Some (lookup h cp ''children'')"
    "own_prop ?h' ?n ''_componentTag'' = Some (lookup h cp ''tag'')"
    unfolding own using pv by (simp_all add: internal_options_def)
  have R: "truthy (lookup h o' ''render'') \<longrightarrow>
                own_prop ?h' ?n ''render'' = Some (lookup h o' ''render'') \<and>
                own_prop ?h' ?n ''staticRenderFns'' = Some (lookup h o' ''staticRenderFns'')"
    unfolding own by (simp add: internal_options_def)
  have F': "\<forall>k. k \<notin> {''parent'', ''_parentVnode'', ''propsData'', ''_parentListeners'',
                        ''_renderChildren'', ''_componentTag''} \<and>
                   (truthy (lookup h o' ''render'') \<longrightarrow> k \<notin> {''render'', ''staticRenderFns''})
                   \<longrightarrow> own_prop ?h' ?n k = None \<and> lookup ?h' ?n k = lookup ?h' co k"
  proof (intro allI impI)
    fix k
    assume "k \<notin> {''parent'', ''_parentVnode'', ''propsData'', ''_parentListeners'',
                        ''_renderChildren'', ''_componentTag''} \<and>
                   (truthy (lookup h o' ''render'') \<longrightarrow> k \<notin> {''render'', ''staticRenderFns''})"
    then show "own_prop ?h' ?n k = None \<and> lookup ?h' ?n k = lookup ?h' co k"
      by (intro F) (erule conjunct1, erule conjunct2)
  qed
  show ?thesis
    unfolding Let_def cl fst_conv snd_conv
    by (intro conjI) (rule refl A B C P R F')+
qed

theorem initInternalComponent_options_witness:
  "get_prop vue_heap (lookup vue_heap 6 ''constructor'') ''options'' = Inr (Ref 3)
   \<and> lookup vue_heap 7 ''_parentVnode'' = Ref 8
   \<and> lookup vue_heap 8 ''componentOptions'' = Ref 9
   \<and> \<not> truthy (lookup vue_heap 7 ''render'')
   \<and> fst (initInternalComponent (Ref 6) (Ref 7) vue_heap) = Inr ()
   \<and> lookup (snd (initInternalComponent (Ref 6) (Ref 7) vue_heap)) 6 ''$options'' = Ref 12
   \<and> proto (snd (initInternalComponent (Ref 6) (Ref 7) vue_heap) ! 12) = Some 3
   \<and> own_prop (snd (initInternalComponent (Ref 6) (Ref 7) vue_heap)) 12 ''propsData'' = Some (Str ''p'')
   \<and> own_prop (snd (initInternalComponent (Ref 6) (Ref 7) vue_heap)) 12 ''_componentTag'' = Some (Str ''t'')
   \<and> own_prop (snd (initInternalComponent (Ref 6) (Ref 7) vue_heap)) 12 ''a'' = None
   \<and> lookup (snd (initInternalComponent (Ref 6) (Ref 7) vue_heap)) 12 ''a'' = Num 1"
proof -
  let ?h' = "snd (initInternalComponent (Ref 6) (Ref 7) vue_heap)"
  have p1: "(6::nat) < length vue_heap" by code_simp
  have p2: "get_prop vue_heap (lookup vue_heap 6 ''constructor'') ''options'' = Inr (Ref 3)" by code_simp
  have p3: "(3::nat) < length vue_heap" by code_simp
  have p4: "(7::nat) < length vue_heap" by code_simp
  have p5: "lookup vue_heap 7 ''_parentVnode'' = Ref 8" by code_simp
  have p6: "(8::nat) < length vue_heap" by code_simp
  have p7: "lookup vue_heap 8 ''componentOptions'' = Ref 9" by code_simp
  have p8: "(9::nat) < length vue_heap" by code_simp
  have len: "length vue_heap = 12" by code_simp
  have r: "\<not> truthy (lookup vue_heap 7 ''render'')" by code_simp
  have v: "lookup vue_heap 9 ''propsData'' = Str ''p''" "lookup vue_heap 9 ''tag'' = Str ''t''"
    by code_simp+
  have a: "lookup ?h' 3 ''a'' = Num 1" by code_simp
  note T = initInternalComponent_options [OF p1 p2 p3 p4 p5 p6 p7 p8, unfolded Let_def len]
  have k: "''a'' \<notin> {''parent'', ''_parentVnode'', ''propsData'', ''_parentListeners'',
                        ''_renderChildren'', ''_componentTag''}" by simp
  from T have F: "\<forall>k. k \<notin> {''parent'', ''_parentVnode'', ''propsData'', ''_parentListeners'',
                        ''_renderChildren'', ''_componentTag''} \<and>
                   (truthy (lookup vue_heap 7 ''render'') \<longrightarrow> k \<notin> {''render'', ''staticRenderFns''})
                   \<longrightarrow> own_prop ?h' 12 k = None \<and> lookup ?h' 12 k = lookup ?h' 3 k"
    by (elim conjE) assumption
  from F [rule_format, of "''a''"] k r
  have f: "own_prop ?h' 12 ''a'' = None" "lookup ?h' 12 ''a'' = lookup ?h' 3 ''a''"
    by simp_all
  from T have c1: "fst (initInternalComponent (Ref 6) (Ref 7) vue_heap) = Inr ()"
    by (elim conjE) assumption
  from T have c2: "lookup ?h' 6 ''$options'' = Ref 12"
    by (elim conjE) assumption
  from T have c3: "proto (?h' ! 12) = Some 3"
    by (elim conjE) assumption
  from T have c4: "own_prop ?h' 12 ''propsData'' = Some (lookup vue_heap 9 ''propsData'')"
    by (elim conjE) assumption
  from T have c5: "own_prop ?h' 12 ''_componentTag'' = Some (lookup vue_heap 9 ''tag'')"
    by (elim conjE) assumption
  show ?thesis
    unfolding c1 c2 c3 c4 c5 f a v
    using p2 p5 p7 r by (intro conjI) (assumption | rule refl)+
qed

section \<open>Mounting\<close>

text \<open>
  C6. When \<^verbatim>\<open>_init\<close> has passed the \<^verbatim>\<open>created\<close> hook: if \<^verbatim>\<open>vm.$options.el\<close> is a
  truthy value, \<^verbatim>\<open>vm.$mount\<close> is called with it, as the last thing \<^verbatim>\<open>_init\<close> does and
  with its outcome as the outcome of \<^verbatim>\<open>_init\<close>; if \<^verbatim>\<open>vm.$options.el\<close> is absent
  (\<^verbatim>\<open>undefined\<close>) or otherwise falsy, \<^verbatim>\<open>_init\<close> returns without calling it. Nothing
  before that point calls \<^verbatim>\<open>$mount\<close>.
\<close>

theorem init_mount_el:
  assumes "init_until_created env vm options (uid s) (heap s) = (Inr (), evs, h2)"
    and "get_prop h2 vm ''$options'' = Inr opts" and "get_prop h2 opts ''el'' = Inr el"
  shows "(truthy el \<longrightarrow>
            Vue_prototype_init env vm options s =
              (fst (mount env vm el h2), Uid vm (uid s) # evs @ [Ran vm (Mount el)],
               \<lparr>uid = uid s + 1, heap = snd (mount env vm el h2)\<rparr>))
       \<and> (\<not> truthy el \<longrightarrow>
            Vue_prototype_init env vm options s =
              (Inr (), Uid vm (uid s) # evs, \<lparr>uid = uid s + 1, heap = h2\<rparr>))
       \<and> (\<forall>x. Ran vm (Mount x) \<notin> set (Uid vm (uid s) # evs))"
proof -
  have rd: "read_el vm h2 = (Inr el, h2)"
    using assms(2,3) by (simp add: read_el_def seq_def getp_def)
  have full: "evs = map (Ran vm) (lifecycle_order (production env))"
    using init_until_created_events [OF assms(1)] by simp
  have nm: "\<forall>x. Ran vm (Mount x) \<notin> set (Uid vm (uid s) # evs)"
    unfolding full by (simp add: lifecycle_order_def)
  have T: "truthy el \<Longrightarrow> init_mount env vm h2 =
             (fst (mount env vm el h2), [Ran vm (Mount el)], snd (mount env vm el h2))"
    using rd by (cases "mount env vm el h2") (auto simp: init_mount_def split: sum.splits)
  have F: "\<not> truthy el \<Longrightarrow> init_mount env vm h2 = (Inr (), [], h2)"
    using rd by (simp add: init_mount_def)
  show ?thesis
    using assms(1) T F nm
    by (cases s) (auto simp: Vue_prototype_init_def init_body_def Let_def)
qed

theorem init_mount_el_witness:
  "last (fst (snd (Vue_prototype_init idle_collaborators (Ref 4) (Ref 5) (initial_state vue_heap))))
     = Ran (Ref 4) (Mount (Str ''#app''))
   \<and> fst (Vue_prototype_init idle_collaborators (Ref 6) Undefined (initial_state vue_heap)) = Inr ()
   \<and> (\<forall>x. Ran (Ref 6) (Mount x) \<notin>
          set (fst (snd (Vue_prototype_init idle_collaborators (Ref 6) Undefined (initial_state vue_heap)))))"
proof -
  let ?s = "initial_state vue_heap"
  let ?Y = "init_until_created idle_collaborators (Ref 4) (Ref 5) (uid ?s) (heap ?s)"
  let ?Z = "init_until_created idle_collaborators (Ref 6) Undefined (uid ?s) (heap ?s)"
  have y: "fst ?Y = Inr ()" by code_simp
  have y': "?Y = (Inr (), fst (snd ?Y), snd (snd ?Y))" using y by (simp add: prod_eq_iff)
  have y2: "get_prop (snd (snd ?Y)) (Ref 4) ''$options'' = Inr (Ref 12)" by code_simp
  have y3: "get_prop (snd (snd ?Y)) (Ref 12) ''el'' = Inr (Str ''#app'')" by code_simp
  have y4: "truthy (Str ''#app'')" by code_simp
  have z: "fst ?Z = Inr ()" by code_simp
  have z': "?Z = (Inr (), fst (snd ?Z), snd (snd ?Z))" using z by (simp add: prod_eq_iff)
  have z2: "get_prop (snd (snd ?Z)) (Ref 6) ''$options'' = Inr (Ref 13)" by code_simp
  have z3: "get_prop (snd (snd ?Z)) (Ref 13) ''el'' = Inr Undefined" by code_simp
  have z4: "\<not> truthy Undefined" by code_simp
  note A = init_mount_el [OF y' y2 y3]
  note B = init_mount_el [OF z' z2 z3]
  from A [THEN conjunct1, rule_format, OF y4]
  have a: "fst (snd (Vue_prototype_init idle_collaborators (Ref 4) (Ref 5) ?s)) =
      Uid (Ref 4) (uid ?s) # fst (snd ?Y) @ [Ran (Ref 4) (Mount (Str ''#app''))]"
    by (simp only: fst_conv snd_conv)
  from B [THEN conjunct2, THEN conjunct1, rule_format, OF z4]
  have b: "Vue_prototype_init idle_collaborators (Ref 6) Undefined ?s =
      (Inr (), Uid (Ref 6) (uid ?s) # fst (snd ?Z), \<lparr>uid = uid ?s + 1, heap = snd (snd ?Z)\<rparr>)" .
  note c = B [THEN conjunct2, THEN conjunct2]
  have l: "last (fst (snd (Vue_prototype_init idle_collaborators (Ref 4) (Ref 5) ?s)))
             = Ran (Ref 4) (Mount (Str ''#app''))"
    unfolding a by simp
  show ?thesis
    unfolding l unfolding b fst_conv snd_conv
    using c by (intro conjI) (assumption | rule refl)+
qed

section \<open>The constructor function called without \<^verbatim>\<open>new\<close>\<close>

text \<open>
  C9, as amended. In a development build, a call of \<^verbatim>\<open>Vue\<close> whose receiver is not an
  instance of \<^verbatim>\<open>Vue\<close> reports the warning, and when \<^verbatim>\<open>warn\<close> returns the function
  goes on to \<^verbatim>\<open>this._init(options)\<close>. With a receiver whose \<^verbatim>\<open>_init\<close> is the
  initializer, that is a run of \<^verbatim>\<open>_init\<close> like any other. A plain call
  \<^verbatim>\<open>Vue(options)\<close>, whose receiver is \<^verbatim>\<open>undefined\<close>, raises a TypeError after the
  warning and runs no part of \<^verbatim>\<open>_init\<close>.
\<close>

theorem Vue_without_new:
  assumes "\<not> production env" and "instanceof (heap s) this Vue = Inr False"
    and "warn env new_warning (heap s) = (Inr (), h1)"
  shows "Vue_function env Vue this options s =
           (case call_init env this options (s\<lparr>heap := h1\<rparr>) of
              (r, evs, s') \<Rightarrow> (r, Warned new_warning # evs, s'))
       \<and> (\<forall>f. get_prop h1 this ''_init'' = Inr (Ref f) \<and> f < length h1 \<and>
               callable (h1 ! f) = Some Code_init \<longrightarrow>
             call_init env this options (s\<lparr>heap := h1\<rparr>) =
               Vue_prototype_init env this options (s\<lparr>heap := h1\<rparr>))
       \<and> (this = Undefined \<longrightarrow>
             Vue_function env Vue this options s =
               (Inl TypeError, [Warned new_warning], s\<lparr>heap := h1\<rparr>))"
proof -
  have A: "Vue_function env Vue this options s =
           (case call_init env this options (s\<lparr>heap := h1\<rparr>) of
              (r, evs, s') \<Rightarrow> (r, Warned new_warning # evs, s'))"
    using assms by (simp add: Vue_function_def)
  have B: "call_init env this options (s\<lparr>heap := h1\<rparr>) =
               Vue_prototype_init env this options (s\<lparr>heap := h1\<rparr>)"
    if "get_prop h1 this ''_init'' = Inr (Ref f)" "f < length h1" "callable (h1 ! f) = Some Code_init" for f
    using that by (simp add: call_init_def)
  have C: "this = Undefined \<Longrightarrow> call_init env this options (s\<lparr>heap := h1\<rparr>) =
             (Inl TypeError, [], s\<lparr>heap := h1\<rparr>)"
    by (simp add: call_init_def get_prop_def)
  show ?thesis using A B C by auto
qed

theorem Vue_without_new_witness:
  "\<not> production idle_collaborators
   \<and> instanceof (heap (initial_state vue_heap)) (Ref 11) (Ref 0) = Inr False
   \<and> warn idle_collaborators new_warning (heap (initial_state vue_heap)) = (Inr (), vue_heap)
   \<and> get_prop vue_heap (Ref 11) ''_init'' = Inr (Ref 2)
   \<and> callable (vue_heap ! 2) = Some Code_init
   \<and> fst (snd (Vue_function idle_collaborators (Ref 0) (Ref 11) (Ref 5) (initial_state vue_heap))) =
       Warned new_warning #
       fst (snd (Vue_prototype_init idle_collaborators (Ref 11) (Ref 5) (initial_state vue_heap)))
   \<and> fst (Vue_function idle_collaborators (Ref 0) (Ref 11) (Ref 5) (initial_state vue_heap)) = Inr ()"
proof -
  let ?s = "initial_state vue_heap"
  have p1: "\<not> production idle_collaborators" by code_simp
  have p2: "instanceof (heap ?s) (Ref 11) (Ref 0) = Inr False" by code_simp
  have p3: "warn idle_collaborators new_warning (heap ?s) = (Inr (), vue_heap)" by code_simp
  have p4: "get_prop vue_heap (Ref 11) ''_init'' = Inr (Ref 2)" by code_simp
  have p5: "(2::nat) < length vue_heap" by code_simp
  have p6: "callable (vue_heap ! 2) = Some Code_init" by code_simp
  have s: "?s\<lparr>heap := vue_heap\<rparr> = ?s" by (simp add: initial_state_def)
  have ok: "fst (Vue_prototype_init idle_collaborators (Ref 11) (Ref 5) ?s) = Inr ()" by code_simp
  note T = Vue_without_new [OF p1 p2 p3, where options = "Ref 5", unfolded s]
  have c: "call_init idle_collaborators (Ref 11) (Ref 5) ?s =
      Vue_prototype_init idle_collaborators (Ref 11) (Ref 5) ?s"
    by (rule T [THEN conjunct2, THEN conjunct1, rule_format, of 2]) (intro conjI p4 p5 p6)
  note v = T [THEN conjunct1]
  have e: "fst (snd (Vue_function idle_collaborators (Ref 0) (Ref 11) (Ref 5) ?s)) =
       Warned new_warning # fst (snd (Vue_prototype_init idle_collaborators (Ref 11) (Ref 5) ?s))"
    unfolding v c by (simp add: case_prod_beta)
  have r: "fst (Vue_function idle_collaborators (Ref 0) (Ref 11) (Ref 5) ?s) = Inr ()"
    unfolding v c using ok by (simp add: case_prod_beta)
  show ?thesis
    using p1 p2 p3 p4 p6 e r by (intro conjI)
qed

text \<open>
  The claim as stated fails for the plain call: in a development build
  \<^verbatim>\<open>Vue(options)\<close> reports the warning, raises a TypeError at \<^verbatim>\<open>this._init\<close>, and
  no step of \<^verbatim>\<open>_init\<close> is entered.
\<close>

theorem plain_call_raises:
  "Vue_function idle_collaborators (Ref 0) Undefined (Ref 5) (initial_state vue_heap) =
     (Inl TypeError, [Warned new_warning], initial_state vue_heap)"
  by code_simp

section \<open>The resolver when nothing is stale\<close>

text \<open>
  C10. For a constructor with a parent: when the configuration that resolving the
  parent returns is identical to the cached \<^verbatim>\<open>Ctor.superOptions\<close>,
  \<^verbatim>\<open>resolveConstructorOptions\<close> returns \<^verbatim>\<open>Ctor.options\<close> and writes nothing itself: the
  heap it leaves is the one that resolving the parent left. When the parent's own chain
  is up to date as well, that is the heap of entry, so \<^verbatim>\<open>options\<close>,
  \<^verbatim>\<open>superOptions\<close>, \<^verbatim>\<open>extendOptions\<close> and \<^verbatim>\<open>sealedOptions\<close> are the same
  objects, with the same contents, after the call as before.
\<close>

theorem resolve_cached_parent:
  assumes "c < length h" and "truthy (lookup h c ''super'')"
    and "resolveConstructorOptions mrg depth (lookup h c ''super'') h = (Inr superOptions, h1)"
    and "c < length h1"
    and "strict_eq superOptions (lookup h1 c ''superOptions'')"
  shows "resolveConstructorOptions mrg (Suc depth) (Ref c) h = (Inr (lookup h c ''options''), h1)
         \<and> (up_to_date depth (lookup h c ''super'') h \<longrightarrow> h1 = h)"
proof
  show "resolveConstructorOptions mrg (Suc depth) (Ref c) h = (Inr (lookup h c ''options''), h1)"
    using assms by (simp add: get_prop_def)
  show "up_to_date depth (lookup h c ''super'') h \<longrightarrow> h1 = h"
  proof
    assume u: "up_to_date depth (lookup h c ''super'') h"
    then obtain p where p: "lookup h c ''super'' = Ref p" using up_to_date_Ref by blast
    from u p have "resolveConstructorOptions mrg depth (Ref p) h = (Inr (lookup h p ''options''), h)"
      by (simp add: resolve_up_to_date)
    with assms(3) p show "h1 = h" by simp
  qed
qed

theorem resolve_cached_parent_witness:
  "truthy (lookup settled_heap 2 ''super'')
   \<and> resolveConstructorOptions mergeOptions_defaultStrat (Suc 0) (lookup settled_heap 2 ''super'') settled_heap
       = (Inr (Ref 1), settled_heap)
   \<and> strict_eq (Ref 1) (lookup settled_heap 2 ''superOptions'')
   \<and> up_to_date (Suc 0) (lookup settled_heap 2 ''super'') settled_heap
   \<and> resolveConstructorOptions mergeOptions_defaultStrat (Suc (Suc 0)) (Ref 2) settled_heap =
       (Inr (Ref 3), settled_heap)"
proof -
  have len: "(2::nat) < length settled_heap" by (simp add: settled_heap_def)
  have sup: "lookup settled_heap 2 ''super'' = Ref 0"
    by (simp add: settled_heap_def plain_def lookup.simps)
  have par: "resolveConstructorOptions mergeOptions_defaultStrat (Suc 0) (Ref 0) settled_heap =
             (Inr (Ref 1), settled_heap)"
    by (simp add: settled_heap_def plain_def get_prop_def lookup.simps truthy_def)
  have eq: "strict_eq (Ref 1) (lookup settled_heap 2 ''superOptions'')"
    by (simp add: settled_heap_def plain_def lookup.simps strict_eq_def)
  have opt: "lookup settled_heap 2 ''options'' = Ref 3"
    by (simp add: settled_heap_def plain_def lookup.simps)
  have upd: "up_to_date (Suc 0) (Ref 0) settled_heap"
    by (simp add: settled_heap_def plain_def lookup.simps truthy_def)
  show ?thesis
    using resolve_cached_parent [of 2 settled_heap mergeOptions_defaultStrat "Suc 0" "Ref 1" settled_heap]
      len sup par eq opt upd
    by (simp add: truthy_def)
qed



section \<open>The resolver after a change of the parent\<close>

text \<open>The sample heap meets the conditions of the theorems of this section.\<close>

lemma stale_heap_facts:
  "(2::nat) < length stale_heap"
  "truthy (lookup stale_heap 2 ''super'')"
  "resolveConstructorOptions mergeOptions_defaultStrat (Suc 0) (lookup stale_heap 2 ''super'') stale_heap
       = (Inr (Ref 1), stale_heap)"
  "\<not> strict_eq (Ref 1) (lookup stale_heap 2 ''superOptions'')"
  "class_fields stale_heap 2 3 6 5"
  "mergeOptions_defaultStrat (Ref 1) (Ref 5) Undefined
        (extended_heap (set_own stale_heap 2 ''superOptions'' (Ref 1)) 3 6 5) = (Inr (Ref 9), stale_heap_merged)"
  "2 < length stale_heap_merged" "9 < length stale_heap_merged"
  by code_simp+

lemma stale_heap_name:
  "truthy (lookup (set_own stale_heap_merged 2 ''options'' (Ref 9)) 9 ''name'')"
  "lookup (set_own stale_heap_merged 2 ''options'' (Ref 9)) 9 ''components'' = Ref 7"
  "7 < length stale_heap_merged"
  "lookup (set_own stale_heap_merged 2 ''options'' (Ref 9)) 9 ''name'' = Str ''sub''"
  by code_simp+

text \<open>
  C3. Let the configuration that resolving the parent returns differ from the cached
  \<^verbatim>\<open>Ctor.superOptions\<close>, for a constructor whose \<^verbatim>\<open>options\<close>, \<^verbatim>\<open>sealedOptions\<close>
  and \<^verbatim>\<open>extendOptions\<close> are objects, and let \<^verbatim>\<open>mergeOptions\<close> return an object. Then
  \<^verbatim>\<open>resolveConstructorOptions\<close> returns: it stores the new parent configuration in
  \<^verbatim>\<open>Ctor.superOptions\<close>; every key of \<^verbatim>\<open>Ctor.options\<close> whose value is not identical to
  the one in \<^verbatim>\<open>Ctor.sealedOptions\<close> becomes an own property of the object
  \<^verbatim>\<open>Ctor.extendOptions\<close>, with the value from \<^verbatim>\<open>Ctor.options\<close>; \<^verbatim>\<open>mergeOptions\<close> is
  called on the new parent configuration and that object, in that heap; its result is
  stored as \<^verbatim>\<open>Ctor.options\<close> and returned. (\<open>h2\<close> is the heap after the store to
  \<^verbatim>\<open>superOptions\<close>, \<open>h3\<close> the one \<^verbatim>\<open>mergeOptions\<close> receives, \<open>h4\<close> the one it
  leaves, \<open>h5\<close> the one after the store to \<^verbatim>\<open>options\<close>.) What the merged
  object holds under those keys is up to \<^verbatim>\<open>mergeOptions\<close>; with the default strategy
  each of them that is not \<^verbatim>\<open>undefined\<close> is in the merged object with its value.
\<close>

theorem resolve_parent_changed:
  assumes par: "c < length h" "truthy (lookup h c ''super'')"
    and res: "resolveConstructorOptions mrg depth (lookup h c ''super'') h = (Inr superOptions, h1)"
    and stale: "\<not> strict_eq superOptions (lookup h1 c ''superOptions'')"
    and flds: "class_fields h1 c l s e"
    and mg: "mrg superOptions (Ref e) Undefined
               (extended_heap (set_own h1 c ''superOptions'' superOptions) l s e) = (Inr (Ref m), h4)"
    and h4: "c < length h4" "m < length h4"
    and reg: "truthy (lookup (set_own h4 c ''options'' (Ref m)) m ''name'') \<longrightarrow>
              lookup (set_own h4 c ''options'' (Ref m)) m ''components'' = Ref comps \<and> comps < length h4"
  shows "let h2 = set_own h1 c ''superOptions'' superOptions;
             h3 = extended_heap h2 l s e;
             h5 = set_own h4 c ''options'' (Ref m);
             name = lookup h5 m ''name''
         in resolveConstructorOptions mrg (Suc depth) (Ref c) h =
              (Inr (Ref m), if truthy name then set_own h5 comps (to_key name) (Ref c) else h5)
          \<and> own_prop h3 c ''superOptions'' = Some superOptions
          \<and> own_prop h3 c ''extendOptions'' = Some (Ref e)
          \<and> (\<forall>k\<in>set (forin_keys h2 (Ref l)).
                \<not> strict_eq (lookup h2 l k) (lookup h2 s k) \<longrightarrow> own_prop h3 e k = Some (lookup h2 l k))
          \<and> own_prop h5 c ''options'' = Some (Ref m)
          \<and> (mrg = mergeOptions_defaultStrat \<longrightarrow>
               (\<forall>k\<in>set (forin_keys h2 (Ref l)).
                  \<not> strict_eq (lookup h2 l k) (lookup h2 s k) \<and> lookup h2 l k \<noteq> Undefined \<longrightarrow>
                  lookup h4 m k = lookup h2 l k))"
proof -
  let ?h2 = "set_own h1 c ''superOptions'' superOptions"
  let ?h3 = "extended_heap ?h2 l s e"
  let ?h5 = "set_own h4 c ''options'' (Ref m)"
  have c1: "c < length h1" and e1: "e < length h1" and ec: "e \<noteq> c"
    using flds by (simp_all add: class_fields_def)
  have "resolveConstructorOptions mrg (Suc depth) (Ref c) h = remerge mrg (Ref c) superOptions h1"
    using par res c1 stale by (rule resolve_stale)
  also have "\<dots> = register_name (Ref c) (Ref m) ?h5"
    using flds mg h4 by (intro remerge_closed) (simp_all add: class_fields_def)
  also have "\<dots> = (Inr (Ref m), if truthy (lookup ?h5 m ''name'')
                      then set_own ?h5 comps (to_key (lookup ?h5 m ''name'')) (Ref c) else ?h5)"
    using h4 reg by (intro register_name_closed) simp_all
  finally have A: "resolveConstructorOptions mrg (Suc depth) (Ref c) h =
      (Inr (Ref m), if truthy (lookup ?h5 m ''name'')
                      then set_own ?h5 comps (to_key (lookup ?h5 m ''name'')) (Ref c) else ?h5)" .
  have B: "own_prop ?h3 c ''superOptions'' = Some superOptions"
    using c1 ec by (simp add: extended_heap_own_other own_prop_set_own)
  have C: "own_prop ?h3 c ''extendOptions'' = Some (Ref e)"
    using c1 ec flds by (simp add: extended_heap_own_other own_prop_set_own class_fields_def)
  have D: "\<forall>k\<in>set (forin_keys ?h2 (Ref l)).
             \<not> strict_eq (lookup ?h2 l k) (lookup ?h2 s k) \<longrightarrow> own_prop ?h3 e k = Some (lookup ?h2 l k)"
    using e1 by (simp add: extended_heap_own_e)
  have E: "own_prop ?h5 c ''options'' = Some (Ref m)"
    using h4 by (simp add: own_prop_set_own)
  have F: "mrg = mergeOptions_defaultStrat \<longrightarrow>
               (\<forall>k\<in>set (forin_keys ?h2 (Ref l)).
                  \<not> strict_eq (lookup ?h2 l k) (lookup ?h2 s k) \<and> lookup ?h2 l k \<noteq> Undefined \<longrightarrow>
                  lookup h4 m k = lookup ?h2 l k)"
  proof (intro impI ballI)
    fix k
    assume m: "mrg = mergeOptions_defaultStrat" and k: "k \<in> set (forin_keys ?h2 (Ref l))"
      and d: "\<not> strict_eq (lookup ?h2 l k) (lookup ?h2 s k) \<and> lookup ?h2 l k \<noteq> Undefined"
    from D k d have "own_prop ?h3 e k = Some (lookup ?h2 l k)" by blast
    then show "lookup h4 m k = lookup ?h2 l k"
      using mg [unfolded m] d by (intro defaultStrat_keeps_child) simp_all
  qed
  show ?thesis
    unfolding Let_def using A B C D E F by (intro conjI)
qed

theorem resolve_parent_changed_witness:
  "truthy (lookup stale_heap 2 ''super'')
   \<and> resolveConstructorOptions mergeOptions_defaultStrat (Suc 0) (lookup stale_heap 2 ''super'') stale_heap
       = (Inr (Ref 1), stale_heap)
   \<and> \<not> strict_eq (Ref 1) (lookup stale_heap 2 ''superOptions'')
   \<and> class_fields stale_heap 2 3 6 5
   \<and> mergeOptions_defaultStrat (Ref 1) (Ref 5) Undefined
        (extended_heap (set_own stale_heap 2 ''superOptions'' (Ref 1)) 3 6 5) = (Inr (Ref 9), stale_heap_merged)
   \<and> truthy (lookup (set_own stale_heap_merged 2 ''options'' (Ref 9)) 9 ''name'')
   \<and> lookup (set_own stale_heap_merged 2 ''options'' (Ref 9)) 9 ''components'' = Ref 7
   \<and> fst (resolveConstructorOptions mergeOptions_defaultStrat (Suc (Suc 0)) (Ref 2) stale_heap) = Inr (Ref 9)
   \<and> own_prop (extended_heap (set_own stale_heap 2 ''superOptions'' (Ref 1)) 3 6 5) 5 ''late'' = Some (Num 3)
   \<and> lookup stale_heap_merged 9 ''late'' = Num 3"
proof -
  have p1: "(2::nat) < length stale_heap" by code_simp
  have p2: "truthy (lookup stale_heap 2 ''super'')" by code_simp
  have p3: "resolveConstructorOptions mergeOptions_defaultStrat (Suc 0) (lookup stale_heap 2 ''super'') stale_heap
       = (Inr (Ref 1), stale_heap)" by code_simp
  have p4: "\<not> strict_eq (Ref 1) (lookup stale_heap 2 ''superOptions'')" by code_simp
  have p5: "class_fields stale_heap 2 3 6 5" by code_simp
  have p6: "mergeOptions_defaultStrat (Ref 1) (Ref 5) Undefined
        (extended_heap (set_own stale_heap 2 ''superOptions'' (Ref 1)) 3 6 5) = (Inr (Ref 9), stale_heap_merged)"
    by code_simp
  have p7: "2 < length stale_heap_merged" "9 < length stale_heap_merged" by code_simp+
  have p8: "truthy (lookup (set_own stale_heap_merged 2 ''options'' (Ref 9)) 9 ''name'')" by code_simp
  have p9: "lookup (set_own stale_heap_merged 2 ''options'' (Ref 9)) 9 ''components'' = Ref 7" by code_simp
  have p10: "7 < length stale_heap_merged" by code_simp
  have k: "''late'' \<in> set (forin_keys (set_own stale_heap 2 ''superOptions'' (Ref 1)) (Ref 3))" by code_simp
  have d: "\<not> strict_eq (lookup (set_own stale_heap 2 ''superOptions'' (Ref 1)) 3 ''late'')
                        (lookup (set_own stale_heap 2 ''superOptions'' (Ref 1)) 6 ''late'')" by code_simp
  have v: "lookup (set_own stale_heap 2 ''superOptions'' (Ref 1)) 3 ''late'' = Num 3" by code_simp
  note T = resolve_parent_changed [of 2 stale_heap mergeOptions_defaultStrat "Suc 0" "Ref 1" stale_heap
      3 6 5 9 stale_heap_merged 7, OF p1 p2 p3 p4 p5 p6 p7, unfolded Let_def]
  have T': "fst (resolveConstructorOptions mergeOptions_defaultStrat (Suc (Suc 0)) (Ref 2) stale_heap) = Inr (Ref 9)"
    and T'': "own_prop (extended_heap (set_own stale_heap 2 ''superOptions'' (Ref 1)) 3 6 5) 5 ''late'' = Some (Num 3)"
    and m: "lookup stale_heap_merged 9 ''late'' = Num 3"
    using T p9 p10 k d v by auto
  show ?thesis using p2 p3 p4 p5 p6 p8 p9 T' T'' m by simp
qed

text \<open>
  C7. In the same situation, when the merged options have a truthy \<^verbatim>\<open>name\<close> and
  an object as \<^verbatim>\<open>components\<close>, the call leaves the constructor itself as the own
  property of that object under the name.
\<close>

theorem resolve_registers_name:
  assumes par: "c < length h" "truthy (lookup h c ''super'')"
    and res: "resolveConstructorOptions mrg depth (lookup h c ''super'') h = (Inr superOptions, h1)"
    and stale: "\<not> strict_eq superOptions (lookup h1 c ''superOptions'')"
    and flds: "class_fields h1 c l s e"
    and mg: "mrg superOptions (Ref e) Undefined
               (extended_heap (set_own h1 c ''superOptions'' superOptions) l s e) = (Inr (Ref m), h4)"
    and h4: "c < length h4" "m < length h4"
    and name: "truthy (lookup (set_own h4 c ''options'' (Ref m)) m ''name'')"
    and comps: "lookup (set_own h4 c ''options'' (Ref m)) m ''components'' = Ref comps" "comps < length h4"
  shows "let name = lookup (set_own h4 c ''options'' (Ref m)) m ''name'';
             h' = snd (resolveConstructorOptions mrg (Suc depth) (Ref c) h)
         in fst (resolveConstructorOptions mrg (Suc depth) (Ref c) h) = Inr (Ref m)
          \<and> own_prop h' comps (to_key name) = Some (Ref c)
          \<and> lookup h' comps (to_key name) = Ref c
          \<and> (to_key name \<noteq> ''components'' \<longrightarrow> lookup h' m ''components'' = Ref comps)"
proof -
  let ?h5 = "set_own h4 c ''options'' (Ref m)"
  let ?name = "lookup ?h5 m ''name''"
  let ?h' = "set_own ?h5 comps (to_key ?name) (Ref c)"
  have A: "resolveConstructorOptions mrg (Suc depth) (Ref c) h = (Inr (Ref m), ?h')"
    using resolve_stale_closed [OF par res stale flds mg h4, of comps] name comps by simp
  have B: "own_prop ?h' comps (to_key ?name) = Some (Ref c)"
    using comps by (simp add: own_prop_set_own)
  have C: "lookup ?h' comps (to_key ?name) = Ref c"
    using B by (rule lookup_own_prop)
  have D: "to_key ?name \<noteq> ''components'' \<longrightarrow> lookup ?h' m ''components'' = Ref comps"
    using comps by (auto simp: lookup_set_own_other_key)
  show ?thesis using B C D by (simp add: Let_def A del: resolveConstructorOptions.simps)
qed

theorem resolve_registers_name_witness:
  "truthy (lookup (set_own stale_heap_merged 2 ''options'' (Ref 9)) 9 ''name'')
   \<and> lookup (set_own stale_heap_merged 2 ''options'' (Ref 9)) 9 ''components'' = Ref 7
   \<and> fst (resolveConstructorOptions mergeOptions_defaultStrat (Suc (Suc 0)) (Ref 2) stale_heap) = Inr (Ref 9)
   \<and> own_prop (snd (resolveConstructorOptions mergeOptions_defaultStrat (Suc (Suc 0)) (Ref 2) stale_heap))
        7 ''sub'' = Some (Ref 2)
   \<and> lookup (snd (resolveConstructorOptions mergeOptions_defaultStrat (Suc (Suc 0)) (Ref 2) stale_heap))
        9 ''components'' = Ref 7"
proof -
  note T = resolve_registers_name [OF stale_heap_facts stale_heap_name(1,2,3), unfolded Let_def stale_heap_name(4)]
  have k: "to_key (Str ''sub'') = ''sub''" by (simp add: to_key_def)
  note T' = T [unfolded k]
  have n: "''sub'' \<noteq> ''components''" by simp
  show ?thesis
    using stale_heap_name(1,2) T' [THEN conjunct1] T' [THEN conjunct2, THEN conjunct1]
      T' [THEN conjunct2, THEN conjunct2, THEN conjunct2, rule_format, OF n]
    by (intro conjI)
qed

text \<open>
  C8, as amended. The re-merge inside \<^verbatim>\<open>resolveConstructorOptions\<close> does not assign
  \<^verbatim>\<open>Ctor.sealedOptions\<close>: when \<^verbatim>\<open>mergeOptions\<close> is called the property is the object
  it was before, and that object is unchanged; the stores that follow the merge leave
  the property as \<^verbatim>\<open>mergeOptions\<close> left it. It remains the snapshot it was, and is
  not a snapshot of the newly merged options.
\<close>

theorem resolve_leaves_sealedOptions:
  assumes par: "c < length h" "truthy (lookup h c ''super'')"
    and res: "resolveConstructorOptions mrg depth (lookup h c ''super'') h = (Inr superOptions, h1)"
    and stale: "\<not> strict_eq superOptions (lookup h1 c ''superOptions'')"
    and flds: "class_fields h1 c l s e" "s \<noteq> e" "s \<noteq> c"
    and mg: "mrg superOptions (Ref e) Undefined
               (extended_heap (set_own h1 c ''superOptions'' superOptions) l s e) = (Inr (Ref m), h4)"
    and h4: "c < length h4" "m < length h4"
    and reg: "truthy (lookup (set_own h4 c ''options'' (Ref m)) m ''name'') \<longrightarrow>
              lookup (set_own h4 c ''options'' (Ref m)) m ''components'' = Ref comps \<and> comps < length h4
              \<and> comps \<noteq> c"
  shows "let h3 = extended_heap (set_own h1 c ''superOptions'' superOptions) l s e;
             h' = snd (resolveConstructorOptions mrg (Suc depth) (Ref c) h)
         in own_prop h3 c ''sealedOptions'' = Some (Ref s)
          \<and> h3 ! s = h1 ! s
          \<and> own_prop h' c ''sealedOptions'' = own_prop h4 c ''sealedOptions''"
proof -
  let ?h2 = "set_own h1 c ''superOptions'' superOptions"
  let ?h3 = "extended_heap ?h2 l s e"
  let ?h5 = "set_own h4 c ''options'' (Ref m)"
  let ?name = "lookup ?h5 m ''name''"
  have c1: "c < length h1" and s1: "s < length h1" and ec: "e \<noteq> c"
    and so: "own_prop h1 c ''sealedOptions'' = Some (Ref s)"
    using flds by (simp_all add: class_fields_def)
  have reg': "truthy ?name \<longrightarrow> lookup ?h5 m ''components'' = Ref comps \<and> comps < length h4"
    using reg by simp
  have A: "resolveConstructorOptions mrg (Suc depth) (Ref c) h =
        (Inr (Ref m), if truthy ?name then set_own ?h5 comps (to_key ?name) (Ref c) else ?h5)"
    using resolve_stale_closed [OF par res stale flds(1) mg h4 reg'] .
  have B: "own_prop ?h3 c ''sealedOptions'' = Some (Ref s)"
    using c1 ec so by (simp add: extended_heap_own_other own_prop_set_own)
  have C: "?h3 ! s = h1 ! s"
    using s1 flds(2,3) by (simp add: extended_heap_nth_other) (simp add: set_own_def)
  have D: "own_prop (snd (resolveConstructorOptions mrg (Suc depth) (Ref c) h)) c ''sealedOptions''
           = own_prop h4 c ''sealedOptions''"
    using reg by (auto simp add: A own_prop_set_own simp del: resolveConstructorOptions.simps)
  show ?thesis using B C D by (simp add: Let_def del: resolveConstructorOptions.simps)
qed

theorem resolve_leaves_sealedOptions_witness:
  "class_fields stale_heap 2 3 6 5
   \<and> own_prop (extended_heap (set_own stale_heap 2 ''superOptions'' (Ref 1)) 3 6 5) 2 ''sealedOptions''
       = Some (Ref 6)
   \<and> extended_heap (set_own stale_heap 2 ''superOptions'' (Ref 1)) 3 6 5 ! 6 = stale_heap ! 6
   \<and> own_prop (snd (resolveConstructorOptions mergeOptions_defaultStrat (Suc (Suc 0)) (Ref 2) stale_heap))
        2 ''sealedOptions'' = Some (Ref 6)"
proof -
  have ne: "(6::nat) \<noteq> 5" "(6::nat) \<noteq> 2" by simp_all
  have reg: "truthy (lookup (set_own stale_heap_merged 2 ''options'' (Ref 9)) 9 ''name'') \<longrightarrow>
              lookup (set_own stale_heap_merged 2 ''options'' (Ref 9)) 9 ''components'' = Ref 7
              \<and> 7 < length stale_heap_merged \<and> (7::nat) \<noteq> 2"
    using stale_heap_name by simp
  have m: "own_prop stale_heap_merged 2 ''sealedOptions'' = Some (Ref 6)" by code_simp
  note T = resolve_leaves_sealedOptions [OF stale_heap_facts(1-5) ne stale_heap_facts(6-8) reg,
      unfolded Let_def]
  show ?thesis
    using stale_heap_facts(5) T [THEN conjunct1] T [THEN conjunct2, THEN conjunct1]
      T [THEN conjunct2, THEN conjunct2, unfolded m]
    by (intro conjI)
qed

text \<open>
  In the sample heap the subclass is re-merged, its \<^verbatim>\<open>options\<close> become the new
  object 9, and \<^verbatim>\<open>sealedOptions\<close> is still object 6, which is no snapshot of it.
\<close>

theorem sealedOptions_not_refreshed:
  "fst (resolveConstructorOptions mergeOptions_defaultStrat 2 (Ref 2) stale_heap) = Inr (Ref 9)
   \<and> lookup stale_heap_resolved 2 ''options'' = Ref 9
   \<and> lookup stale_heap_resolved 2 ''sealedOptions'' = Ref 6
   \<and> \<not> snapshot_of stale_heap_resolved
         (lookup stale_heap_resolved 2 ''sealedOptions'') (lookup stale_heap_resolved 2 ''options'')"
  by code_simp

end
